theory Spec2Isabelle
  imports Main "HOL-Library.Word" "HOL-Library.Log_Nat" "HOL-Library.Sublist"
begin

section \<open>CropGuard image preprocessing: the data model\<close>

text \<open>
  The development embeds \<^verbatim>\<open>image_processor.py\<close> (class \<^verbatim>\<open>CropImageProcessor\<close>).
  Python exceptions are values: every function of the source that can raise returns
  \<open>exn + 'a\<close>, with \<open>Inl\<close> the exception. An \<open>exn\<close> is an exception of a class below
  \<^verbatim>\<open>Exception\<close>, with the text that \<^verbatim>\<open>str(e)\<close> returns: these are the exceptions that
  the three \<^verbatim>\<open>except Exception\<close> clauses of the file catch and format.
\<close>

datatype exn_class =
  FileNotFoundError | ValueError | ZeroDivisionError | OSError | MemoryError | Cv2Error

datatype exn = Exn (cls: exn_class) (str: string)

text \<open>
  What \<^verbatim>\<open>except Exception\<close> at line 114 does not stop: an exception of a class that
  derives from \<^verbatim>\<open>BaseException\<close> but not from \<^verbatim>\<open>Exception\<close>, wherever in the call it is
  raised, and an exception that the \<^verbatim>\<open>except\<close> clause raises itself.
\<close>

datatype base_exception = KeyboardInterrupt | SystemExit | GeneratorExit

datatype propagated = Uncaught base_exception | FromHandler exn

text \<open>
  A PIL image in mode RGB and a NumPy array of the same shape are both a raster: the
  dimensions and the elements in row-major order. A channel is an unsigned byte.
\<close>

type_synonym byte = "8 word"

type_synonym pixel = "byte \<times> byte \<times> byte"

record 'a raster =
  width :: int
  height :: int
  pixels :: "'a list"

type_synonym image = "pixel raster"

definition red :: "'a \<times> 'a \<times> 'a \<Rightarrow> 'a" where
  "red p = fst p"

definition green :: "'a \<times> 'a \<times> 'a \<Rightarrow> 'a" where
  "green p = fst (snd p)"

definition blue :: "'a \<times> 'a \<times> 'a \<Rightarrow> 'a" where
  "blue p = snd (snd p)"

text \<open>\<^verbatim>\<open>self.config\<close>: the defaults of \<^verbatim>\<open>__init__\<close>, overlaid by the caller's values.\<close>

record config =
  target_size :: "int \<times> int"
  quality :: int
  brightness_threshold :: rat
  contrast_enhancement :: rat
  sharpness_enhancement :: rat
  noise_reduction :: bool
  color_correction :: bool
  auto_crop :: bool

definition default_config :: config where
  "default_config =
     \<lparr>target_size = (512, 512), quality = 95, brightness_threshold = 3 / 10,
      contrast_enhancement = 12 / 10, sharpness_enhancement = 11 / 10,
      noise_reduction = True, color_correction = True, auto_crop = True\<rparr>"

text \<open>\<^verbatim>\<open>self.stats\<close>.\<close>

record stats =
  processed_count :: int
  error_count :: int
  avg_processing_time :: rat

definition initial_stats :: stats where
  "initial_stats = \<lparr>processed_count = 0, error_count = 0, avg_processing_time = 0\<rparr>"

section \<open>Floating point\<close>

text \<open>
  NumPy computes \<^verbatim>\<open>_correct_colors\<close> in IEEE binary32, and Python computes the aspect
  ratios of \<^verbatim>\<open>_smart_resize\<close> in IEEE binary64. A float is modelled by the rational it
  denotes, and an operation by the exact operation followed by a rounding. \<open>f32\<close> is
  round-to-nearest, ties-to-even, to 24 significant bits with gradual underflow below
  \<open>2 ^ - 126\<close>; \<open>f64\<close> is the same rounding to 53 significant bits, with gradual underflow
  below \<open>2 ^ - 1022\<close>. Overflow to infinity is not modelled (no value of the pipeline
  comes near \<open>2 ^ 128\<close>).
\<close>

definition pow2 :: "int \<Rightarrow> rat" where
  "pow2 k = (if 0 \<le> k then 2 ^ nat k else 1 / 2 ^ nat (- k))"

definition floorlog2 :: "rat \<Rightarrow> int" where
  "floorlog2 x =
     (let (p, q) = quotient_of x; k = bitlen p - bitlen q
      in if pow2 k \<le> x then k else k - 1)"

definition round_half_even :: "rat \<Rightarrow> int" where
  "round_half_even q =
     (let n = \<lfloor>q\<rfloor>; r = q - of_int n
      in if r < 1 / 2 then n else if 1 / 2 < r then n + 1
         else if even n then n else n + 1)"

definition f32 :: "rat \<Rightarrow> rat" where
  "f32 x =
     (if x = 0 then 0
      else let a = \<bar>x\<bar>; e = max (floorlog2 a) (- 126); ulp = pow2 (e - 23)
           in sgn x * of_int (round_half_even (a / ulp)) * ulp)"

text \<open>
  The same rounding for any format: \<open>p\<close> significant bits and least normal exponent
  \<open>emin\<close>. Binary32 is \<open>round_to 24 (- 126)\<close>.
\<close>

definition round_to :: "int \<Rightarrow> int \<Rightarrow> rat \<Rightarrow> rat" where
  "round_to p emin x =
     (if x = 0 then 0
      else let a = \<bar>x\<bar>; e = max (floorlog2 a) emin; ulp = pow2 (e - (p - 1))
           in sgn x * of_int (round_half_even (a / ulp)) * ulp)"

definition f64 :: "rat \<Rightarrow> rat" where
  "f64 x = round_to 53 (- 1022) x"

text \<open>
  \<open>rnd\<close> rounds the result of one arithmetic operation; \<open>np_mean\<close> is \<^verbatim>\<open>np.mean\<close> of
  one channel. NumPy sums a channel pairwise in binary32, in an order that depends on the
  array's layout, so the reduction is a parameter of the model.
\<close>

record float_model =
  rnd :: "rat \<Rightarrow> rat"
  np_mean :: "rat list \<Rightarrow> rat"

definition exact_mean :: "rat list \<Rightarrow> rat" where
  "exact_mean xs = sum_list xs / of_nat (length xs)"

text \<open>Binary32 with a correctly rounded mean (exact on a one-pixel buffer).\<close>

definition float32 :: float_model where
  "float32 = \<lparr>rnd = f32, np_mean = (\<lambda>xs. f32 (exact_mean xs))\<rparr>"

definition fadd :: "float_model \<Rightarrow> rat \<Rightarrow> rat \<Rightarrow> rat" where
  "fadd fm a b = rnd fm (a + b)"

definition fsub :: "float_model \<Rightarrow> rat \<Rightarrow> rat \<Rightarrow> rat" where
  "fsub fm a b = rnd fm (a - b)"

definition fmul :: "float_model \<Rightarrow> rat \<Rightarrow> rat \<Rightarrow> rat" where
  "fmul fm a b = rnd fm (a * b)"

definition fdiv :: "float_model \<Rightarrow> rat \<Rightarrow> rat \<Rightarrow> rat" where
  "fdiv fm a b = rnd fm (a / b)"

section \<open>Color correction\<close>

text \<open>
  \<^verbatim>\<open>np.array(image, dtype=np.float32) / 255.0\<close>, per channel value.
\<close>

definition normalize :: "float_model \<Rightarrow> byte \<Rightarrow> rat" where
  "normalize fm c = fdiv fm (of_nat (unat c)) 255"

text \<open>
  \<^verbatim>\<open>np.clip(x * 255, 0, 255).astype(np.uint8)\<close>, per channel value: the conversion
  truncates.
\<close>

definition clip :: "rat \<Rightarrow> rat \<Rightarrow> rat \<Rightarrow> rat" where
  "clip x lo hi = min (max x lo) hi"

definition requantize :: "float_model \<Rightarrow> rat \<Rightarrow> byte" where
  "requantize fm x = word_of_int \<lfloor>clip (fmul fm x 255) 0 255\<rfloor>"

text \<open>
  The scaling factor of one channel against the green mean, and its damping:
  \<^verbatim>\<open>scale = avg_g / avg if avg > 0 else 1.0\<close>, then
  \<^verbatim>\<open>scale = 1.0 + (scale - 1.0) * correction_strength\<close>.
\<close>

definition correction_strength :: "float_model \<Rightarrow> rat" where
  "correction_strength fm = rnd fm (3 / 10)"

definition scale_to_green :: "float_model \<Rightarrow> rat \<Rightarrow> rat \<Rightarrow> rat" where
  "scale_to_green fm avg_g avg = (if 0 < avg then fdiv fm avg_g avg else 1)"

definition damp :: "float_model \<Rightarrow> rat \<Rightarrow> rat" where
  "damp fm scale = fadd fm 1 (fmul fm (fsub fm scale 1) (correction_strength fm))"

text \<open>
  \<open>normalized_array\<close> is \<^verbatim>\<open>img_array\<close> after line 288, \<open>scaled_array\<close> is \<^verbatim>\<open>img_array\<close>
  after line 307 (red and blue multiplied by their damped factors, green untouched), and
  \<open>correct_colors\<close> clips and requantizes it.
\<close>

definition normalized_array :: "float_model \<Rightarrow> image \<Rightarrow> (rat \<times> rat \<times> rat) list" where
  "normalized_array fm img =
     map (\<lambda>p. (normalize fm (red p), normalize fm (green p), normalize fm (blue p)))
         (pixels img)"

definition scaled_array :: "float_model \<Rightarrow> image \<Rightarrow> (rat \<times> rat \<times> rat) list" where
  "scaled_array fm img =
     (let img_array = normalized_array fm img;
          avg_r = np_mean fm (map red img_array);
          avg_g = np_mean fm (map green img_array);
          avg_b = np_mean fm (map blue img_array);
          scale_r = damp fm (scale_to_green fm avg_g avg_r);
          scale_b = damp fm (scale_to_green fm avg_g avg_b)
      in map (\<lambda>p. (fmul fm (red p) scale_r, green p, fmul fm (blue p) scale_b)) img_array)"

definition correct_colors :: "float_model \<Rightarrow> image \<Rightarrow> image" where
  "correct_colors fm img =
     img\<lparr>pixels :=
           map (\<lambda>p. (requantize fm (red p), requantize fm (green p), requantize fm (blue p)))
               (scaled_array fm img)\<rparr>"


section \<open>The outside world\<close>

text \<open>
  Pillow, OpenCV, the file system and the clock are not part of the repository. What the
  source asks of them is a field of \<open>env\<close>; a call that can raise returns a sum.
  \<^item> \<open>time_time k\<close> is what the \<open>k\<close>-th call of \<^verbatim>\<open>time.time()\<close> returns;
  \<^item> \<open>Image_open\<close> is \<^verbatim>\<open>Image.open\<close>, \<^verbatim>\<open>convert('RGB')\<close> and \<^verbatim>\<open>exif_transpose\<close>;
  \<^item> \<open>Image_save\<close> is \<^verbatim>\<open>mkdir\<close> and \<^verbatim>\<open>image.save\<close> with the quality and the progressive
    flag, and returns the size of the file written;
  \<^item> \<open>resample_lanczos\<close> gives the pixels of \<^verbatim>\<open>image.resize(size, LANCZOS)\<close>;
  \<^item> \<open>cvtColor_HSV\<close> is the conversion of the RGB buffer to OpenCV's 8-bit HSV
    (hue on the scale 0 to 180);
  \<^item> \<open>findContours\<close> is \<^verbatim>\<open>cv2.findContours(mask, RETR_EXTERNAL, CHAIN_APPROX_SIMPLE)\<close>;
  \<^item> \<open>normalize_lighting\<close> (CLAHE on the lightness channel), \<open>enhance_contrast\<close>,
    \<open>enhance_sharpness\<close> (\<^verbatim>\<open>ImageEnhance\<close>), \<open>reduce_noise\<close> (bilateral filter) and
    \<open>calculate_quality_metrics\<close> are the source functions of these names, which only call
    the libraries;
  \<^item> \<open>numpy\<close> is the floating-point arithmetic of NumPy;
  \<^item> \<open>interrupt\<close> is the exception outside \<^verbatim>\<open>Exception\<close>, if any, that is raised while a
    call of \<^verbatim>\<open>process_image\<close> runs: by the interpreter on a signal, or by a library;
  \<^item> \<open>handler_error\<close> is the exception, if any, that the \<^verbatim>\<open>except\<close> clause of
    \<^verbatim>\<open>process_image\<close> raises when it runs: \<^verbatim>\<open>str(e)\<close> at lines 116 and 119 runs the
    \<^verbatim>\<open>__str__\<close> method of the class of the exception caught, which is library code.
\<close>

record quality_metrics =
  brightness :: rat
  contrast :: rat
  sharpness :: rat

type_synonym contour = "(int \<times> int) list"

record env =
  time_time :: "nat \<Rightarrow> rat"
  Image_open :: "string \<Rightarrow> exn + image"
  Image_save :: "image \<Rightarrow> string \<Rightarrow> int \<Rightarrow> bool \<Rightarrow> exn + nat"
  resample_lanczos :: "image \<Rightarrow> int \<times> int \<Rightarrow> pixel list"
  cvtColor_HSV :: "image \<Rightarrow> exn + pixel raster"
  findContours :: "byte raster \<Rightarrow> exn + contour list"
  normalize_lighting :: "image \<Rightarrow> exn + image"
  enhance_contrast :: "image \<Rightarrow> rat \<Rightarrow> exn + image"
  enhance_sharpness :: "image \<Rightarrow> rat \<Rightarrow> exn + image"
  reduce_noise :: "image \<Rightarrow> exn + image"
  calculate_quality_metrics :: "image \<Rightarrow> exn + quality_metrics"
  numpy :: float_model
  interrupt :: "base_exception option"
  handler_error :: "exn option"

section \<open>Input validation\<close>

text \<open>
  \<^verbatim>\<open>Path(p).suffix\<close> on a POSIX path: the name is the last component that is neither
  empty nor a single dot, and the suffix starts at the last dot of the name, unless that
  dot is the first or the last character.
\<close>

fun split_on :: "char \<Rightarrow> string \<Rightarrow> string list" where
  "split_on c [] = [[]]"
| "split_on c (x # xs) =
     (if x = c then [] # split_on c xs
      else (case split_on c xs of [] \<Rightarrow> [[x]] | w # ws \<Rightarrow> (x # w) # ws))"

definition path_name :: "string \<Rightarrow> string" where
  "path_name p =
     (case filter (\<lambda>c. c \<noteq> [] \<and> c \<noteq> ''.'') (split_on (CHR ''/'') p) of
        [] \<Rightarrow> []
      | c # cs \<Rightarrow> last (c # cs))"

definition rfind :: "char \<Rightarrow> string \<Rightarrow> int" where
  "rfind c s =
     (case filter (\<lambda>i. s ! i = c) (rev [0..<length s]) of
        [] \<Rightarrow> - 1
      | i # _ \<Rightarrow> int i)"

definition path_suffix :: "string \<Rightarrow> string" where
  "path_suffix p =
     (let name = path_name p; i = rfind (CHR ''.'') name
      in if 0 < i \<and> i < int (length name) - 1 then drop (nat i) name else [])"

text \<open>\<^verbatim>\<open>str.lower\<close> on ASCII.\<close>

definition lower_char :: "char \<Rightarrow> char" where
  "lower_char c =
     (case map_of (zip ''ABCDEFGHIJKLMNOPQRSTUVWXYZ'' ''abcdefghijklmnopqrstuvwxyz'') c of
        None \<Rightarrow> c
      | Some d \<Rightarrow> d)"

definition lower :: "string \<Rightarrow> string" where
  "lower s = map lower_char s"

definition supported_formats :: "string set" where
  "supported_formats = {''.jpg'', ''.jpeg'', ''.png'', ''.webp'', ''.bmp'', ''.tiff''}"

text \<open>
  The file system is a map from the paths that exist to their sizes in bytes.
\<close>

definition validate_input :: "(string \<Rightarrow> nat option) \<Rightarrow> string \<Rightarrow> exn + unit" where
  "validate_input fs input_path =
     (case fs input_path of
        None \<Rightarrow> Inl (Exn FileNotFoundError (''Input image not found: '' @ input_path))
      | Some st_size \<Rightarrow>
          if lower (path_suffix input_path) \<notin> supported_formats
          then Inl (Exn ValueError (''Unsupported image format: '' @ path_suffix input_path))
          else if 20 * 1024 * 1024 < st_size
          then Inl (Exn ValueError ''Image file too large (max 20MB)'')
          else Inr ())"

section \<open>Pillow's resize and crop\<close>

text \<open>
  \<^verbatim>\<open>Image.resize\<close> returns a copy when the size does not change and refuses a size
  below 1; \<^verbatim>\<open>Image.crop\<close> refuses a box whose right or lower edge lies before the left or
  upper one, and fills what lies outside the image with black. (The messages are
  Pillow's, abridged.)
\<close>

definition image_size :: "'a raster \<Rightarrow> int \<times> int" where
  "image_size img = (width img, height img)"

definition pixel_at :: "image \<Rightarrow> int \<Rightarrow> int \<Rightarrow> pixel" where
  "pixel_at img x y =
     (if 0 \<le> x \<and> x < width img \<and> 0 \<le> y \<and> y < height img
         \<and> nat (y * width img + x) < length (pixels img)
      then pixels img ! nat (y * width img + x) else (0, 0, 0))"

definition pil_resize :: "env \<Rightarrow> image \<Rightarrow> int \<times> int \<Rightarrow> exn + image" where
  "pil_resize env img sz =
     (if image_size img = sz then Inr img
      else if fst sz < 1 \<or> snd sz < 1
      then Inl (Exn ValueError ''height and width must be > 0'')
      else Inr \<lparr>width = fst sz, height = snd sz, pixels = resample_lanczos env img sz\<rparr>)"

definition pil_crop :: "image \<Rightarrow> int \<times> int \<times> int \<times> int \<Rightarrow> exn + image" where
  "pil_crop img box =
     (case box of (left, upper, right, bottom) \<Rightarrow>
        if right < left then Inl (Exn ValueError ''Coordinate right is less than left'')
        else if bottom < upper then Inl (Exn ValueError ''Coordinate lower is less than upper'')
        else Inr \<lparr>width = right - left, height = bottom - upper,
                  pixels = concat (map (\<lambda>y. map (\<lambda>x. pixel_at img (left + x) (upper + y))
                                               [0..right - left - 1])
                                       [0..bottom - upper - 1])\<rparr>)"

section \<open>The geometric normalizer\<close>

text \<open>
  \<^verbatim>\<open>int(x)\<close> truncates toward zero. The aspect ratios are Python floats: every
  division and multiplication of lines 235 to 245 is rounded to binary64, and an integer
  operand is converted to binary64 first. Whatever the scaled size comes out as, the
  resize and the center crop are the function \<open>resize_center_crop\<close> of it.
\<close>

definition py_int :: "rat \<Rightarrow> int" where
  "py_int x = (if 0 \<le> x then \<lfloor>x\<rfloor> else \<lceil>x\<rceil>)"

definition scaled_size :: "int \<times> int \<Rightarrow> image \<Rightarrow> exn + int \<times> int" where
  "scaled_size target img =
     (case target of (target_width, target_height) \<Rightarrow>
        if height img = 0 \<or> target_height = 0
        then Inl (Exn ZeroDivisionError ''division by zero'')
        else
          let original_ratio = f64 (of_int (width img) / of_int (height img));
              target_ratio = f64 (of_int target_width / of_int target_height)
          in if target_ratio < original_ratio
             then Inr (py_int (f64 (f64 (of_int target_height) * original_ratio)),
                       target_height)
             else if original_ratio = 0
             then Inl (Exn ZeroDivisionError ''float division by zero'')
             else Inr (target_width,
                       py_int (f64 (f64 (of_int target_width) / original_ratio))))"

definition resize_center_crop :: "env \<Rightarrow> int \<times> int \<Rightarrow> image \<Rightarrow> int \<times> int \<Rightarrow> exn + image" where
  "resize_center_crop env target img new_size =
     (case target of (target_width, target_height) \<Rightarrow>
      case new_size of (new_width, new_height) \<Rightarrow>
      case pil_resize env img (new_width, new_height) of
        Inl e \<Rightarrow> Inl e
      | Inr resized \<Rightarrow>
          if new_width \<noteq> target_width \<or> new_height \<noteq> target_height
          then let left = (new_width - target_width) div 2;
                   top = (new_height - target_height) div 2;
                   right = left + target_width;
                   bottom = top + target_height
               in pil_crop resized (left, top, right, bottom)
          else Inr resized)"

definition smart_resize :: "env \<Rightarrow> config \<Rightarrow> image \<Rightarrow> exn + image" where
  "smart_resize env cfg img =
     (case scaled_size (target_size cfg) img of
        Inl e \<Rightarrow> Inl e
      | Inr new_size \<Rightarrow> resize_center_crop env (target_size cfg) img new_size)"

section \<open>The subject locator\<close>

definition lower_green :: pixel where
  "lower_green = (25, 40, 40)"

definition upper_green :: pixel where
  "upper_green = (85, 255, 255)"

text \<open>\<^verbatim>\<open>cv2.inRange\<close>: 255 where every channel lies within the bounds, else 0.\<close>

definition in_range :: "pixel \<Rightarrow> pixel \<Rightarrow> pixel \<Rightarrow> bool" where
  "in_range p lo hi =
     (red lo \<le> red p \<and> red p \<le> red hi \<and> green lo \<le> green p \<and> green p \<le> green hi
      \<and> blue lo \<le> blue p \<and> blue p \<le> blue hi)"

definition inRange :: "pixel raster \<Rightarrow> pixel \<Rightarrow> pixel \<Rightarrow> byte raster" where
  "inRange src lo hi =
     \<lparr>width = width src, height = height src,
      pixels = map (\<lambda>p. if in_range p lo hi then 255 else 0) (pixels src)\<rparr>"

text \<open>
  \<^verbatim>\<open>cv2.contourArea\<close> (the shoelace sum, halved, unsigned), \<^verbatim>\<open>max(contours, key=...)\<close>
  (the first of the largest) and \<^verbatim>\<open>cv2.boundingRect\<close> of a point list.
\<close>

fun shoelace :: "int \<times> int \<Rightarrow> contour \<Rightarrow> int" where
  "shoelace prev [] = 0"
| "shoelace prev (p # ps) = fst prev * snd p - snd prev * fst p + shoelace p ps"

definition contourArea :: "contour \<Rightarrow> rat" where
  "contourArea c = (if c = [] then 0 else \<bar>of_int (shoelace (last c) c)\<bar> / 2)"

fun max_by :: "('a \<Rightarrow> rat) \<Rightarrow> 'a \<Rightarrow> 'a list \<Rightarrow> 'a" where
  "max_by key best [] = best"
| "max_by key best (x # xs) = max_by key (if key best < key x then x else best) xs"

definition boundingRect :: "contour \<Rightarrow> int \<times> int \<times> int \<times> int" where
  "boundingRect c =
     (case c of
        [] \<Rightarrow> (0, 0, 0, 0)
      | p # ps \<Rightarrow>
          let x0 = fold min (map fst ps) (fst p); x1 = fold max (map fst ps) (fst p);
              y0 = fold min (map snd ps) (snd p); y1 = fold max (map snd ps) (snd p)
          in (x0, y0, x1 - x0 + 1, y1 - y0 + 1))"

text \<open>
  The body of the \<^verbatim>\<open>try\<close> block of \<^verbatim>\<open>_auto_crop_plant\<close>: \<open>Inr None\<close> when it falls through
  (no contour), \<open>Inr (Some cropped)\<close> when it returns the crop, \<open>Inl e\<close> when a step raises.
\<close>

definition auto_crop_try :: "env \<Rightarrow> image \<Rightarrow> exn + image option" where
  "auto_crop_try env img =
     (case cvtColor_HSV env img of
        Inl e \<Rightarrow> Inl e
      | Inr hsv \<Rightarrow>
          let mask = inRange hsv lower_green upper_green
          in case findContours env mask of
               Inl e \<Rightarrow> Inl e
             | Inr [] \<Rightarrow> Inr None
             | Inr (c # cs) \<Rightarrow>
                 let largest_contour = max_by contourArea c cs
                 in case boundingRect largest_contour of (x, y, w, h) \<Rightarrow>
                    let padding_x = py_int (of_int (width img) * (1 / 10));
                        padding_y = py_int (of_int (height img) * (1 / 10));
                        x = max 0 (x - padding_x);
                        y = max 0 (y - padding_y);
                        w = min (width img - x) (w + 2 * padding_x);
                        h = min (height img - y) (h + 2 * padding_y)
                    in case pil_crop img (x, y, x + w, y + h) of
                         Inl e \<Rightarrow> Inl e
                       | Inr cropped \<Rightarrow> Inr (Some cropped))"

text \<open>The \<^verbatim>\<open>except\<close> clause logs and falls through to \<^verbatim>\<open>return image\<close>.\<close>

definition auto_crop_plant :: "env \<Rightarrow> image \<Rightarrow> image" where
  "auto_crop_plant env img =
     (case auto_crop_try env img of
        Inl e \<Rightarrow> img
      | Inr None \<Rightarrow> img
      | Inr (Some cropped) \<Rightarrow> cropped)"

section \<open>The pipeline\<close>

text \<open>
  \<^verbatim>\<open>_enhance_quality\<close>: the contrast enhancer, then the sharpness enhancer.
\<close>

definition enhance_quality :: "env \<Rightarrow> config \<Rightarrow> image \<Rightarrow> exn + image" where
  "enhance_quality env cfg img =
     (case enhance_contrast env img (contrast_enhancement cfg) of
        Inl e \<Rightarrow> Inl e
      | Inr enhanced \<Rightarrow> enhance_sharpness env enhanced (sharpness_enhancement cfg))"

text \<open>\<^verbatim>\<open>_preprocess_pipeline\<close>, steps 1 to 6.\<close>

definition preprocess_pipeline :: "env \<Rightarrow> config \<Rightarrow> image \<Rightarrow> exn + image" where
  "preprocess_pipeline env cfg img =
     (let cropped = (if auto_crop cfg then auto_crop_plant env img else img)
      in case smart_resize env cfg cropped of
           Inl e \<Rightarrow> Inl e
         | Inr resized \<Rightarrow>
             (case normalize_lighting env resized of
                Inl e \<Rightarrow> Inl e
              | Inr normalized \<Rightarrow>
                  let corrected = (if color_correction cfg
                                   then correct_colors (numpy env) normalized else normalized)
                  in case enhance_quality env cfg corrected of
                       Inl e \<Rightarrow> Inl e
                     | Inr enhanced \<Rightarrow>
                         if noise_reduction cfg then reduce_noise env enhanced
                         else Inr enhanced))"

text \<open>
  The same pipeline as the list of the stages it runs, in the order it runs them, and
  the name under which \<^verbatim>\<open>_get_applied_preprocessing\<close> reports each stage.
\<close>

datatype stage =
  AutoCrop | Resize | Lighting | ColorCorrection | Contrast | Sharpness | NoiseReduction

fun run_stage :: "env \<Rightarrow> config \<Rightarrow> stage \<Rightarrow> image \<Rightarrow> exn + image" where
  "run_stage env cfg AutoCrop img = Inr (auto_crop_plant env img)"
| "run_stage env cfg Resize img = smart_resize env cfg img"
| "run_stage env cfg Lighting img = normalize_lighting env img"
| "run_stage env cfg ColorCorrection img = Inr (correct_colors (numpy env) img)"
| "run_stage env cfg Contrast img = enhance_contrast env img (contrast_enhancement cfg)"
| "run_stage env cfg Sharpness img = enhance_sharpness env img (sharpness_enhancement cfg)"
| "run_stage env cfg NoiseReduction img = reduce_noise env img"

fun run_stages :: "env \<Rightarrow> config \<Rightarrow> stage list \<Rightarrow> image \<Rightarrow> exn + image" where
  "run_stages env cfg [] img = Inr img"
| "run_stages env cfg (st # sts) img =
     (case run_stage env cfg st img of
        Inl e \<Rightarrow> Inl e
      | Inr img' \<Rightarrow> run_stages env cfg sts img')"

definition pipeline_stages :: "config \<Rightarrow> stage list" where
  "pipeline_stages cfg =
     (if auto_crop cfg then [AutoCrop] else []) @ [Resize, Lighting]
     @ (if color_correction cfg then [ColorCorrection] else []) @ [Contrast, Sharpness]
     @ (if noise_reduction cfg then [NoiseReduction] else [])"

fun stage_name :: "stage \<Rightarrow> string" where
  "stage_name AutoCrop = ''auto_crop_plant_focus''"
| "stage_name Resize = ''resize_to_512x512''"
| "stage_name Lighting = ''lighting_normalization''"
| "stage_name ColorCorrection = ''color_correction''"
| "stage_name Contrast = ''contrast_enhancement''"
| "stage_name Sharpness = ''sharpness_enhancement''"
| "stage_name NoiseReduction = ''noise_reduction''"

text \<open>\<^verbatim>\<open>_get_applied_preprocessing\<close>: \<^verbatim>\<open>insert(0, ...)\<close>, then two \<^verbatim>\<open>append\<close>s.\<close>

definition get_applied_preprocessing :: "config \<Rightarrow> string list" where
  "get_applied_preprocessing cfg =
     (let steps = [''resize_to_512x512'', ''lighting_normalization'',
                   ''contrast_enhancement'', ''sharpness_enhancement''];
          steps = (if auto_crop cfg then ''auto_crop_plant_focus'' # steps else steps);
          steps = (if color_correction cfg then steps @ [''color_correction''] else steps);
          steps = (if noise_reduction cfg then steps @ [''noise_reduction''] else steps)
      in steps)"

section \<open>One invocation\<close>

text \<open>
  What an invocation can change: the statistics of the processor, the files, the number
  of clock readings taken, and the paths handed to the decoder (newest first).
\<close>

record state =
  statistics :: stats
  files :: "string \<Rightarrow> nat option"
  ticks :: nat
  opened :: "string list"

text \<open>
  The dictionary \<^verbatim>\<open>process_image\<close> returns; a key the dictionary lacks is \<open>None\<close>.
\<close>

record processing_result =
  success :: bool
  error :: "string option"
  input_path :: string
  output_path :: "string option"
  original_size :: "(int \<times> int) option"
  processed_size :: "(int \<times> int) option"
  processing_time :: rat
  file_size_before :: "nat option"
  file_size_after :: "nat option"
  preprocessing_applied :: "string list option"
  quality_metrics :: "quality_metrics option"
  timestamp :: "rat option"

definition now :: "env \<Rightarrow> state \<Rightarrow> rat \<times> state" where
  "now env s = (time_time env (ticks s), s\<lparr>ticks := Suc (ticks s)\<rparr>)"

text \<open>\<^verbatim>\<open>_load_image\<close>: whatever the decoder raises becomes a \<^verbatim>\<open>ValueError\<close>.\<close>

definition load_image :: "env \<Rightarrow> string \<Rightarrow> state \<Rightarrow> (exn + image) \<times> state" where
  "load_image env path s =
     (let s' = s\<lparr>opened := path # opened s\<rparr>
      in case Image_open env path of
           Inl e \<Rightarrow> (Inl (Exn ValueError (''Failed to load image: '' @ str e)), s')
         | Inr img \<Rightarrow> (Inr img, s'))"

text \<open>\<^verbatim>\<open>_save_image\<close>; a failed save is taken to leave the files as they were.\<close>

definition ends_with :: "string \<Rightarrow> string \<Rightarrow> bool" where
  "ends_with s e = (length e \<le> length s \<and> drop (length s - length e) s = e)"

definition save_image :: "env \<Rightarrow> config \<Rightarrow> image \<Rightarrow> string \<Rightarrow> state \<Rightarrow> (exn + unit) \<times> state" where
  "save_image env cfg img path s =
     (let progressive = (ends_with (lower path) ''.jpg'' \<or> ends_with (lower path) ''.jpeg'')
      in case Image_save env img path (quality cfg) progressive of
           Inl e \<Rightarrow> (Inl e, s)
         | Inr n \<Rightarrow> (Inr (), s\<lparr>files := (files s)(path \<mapsto> n)\<rparr>))"

definition getsize :: "state \<Rightarrow> string \<Rightarrow> exn + nat" where
  "getsize s path =
     (case files s path of
        None \<Rightarrow> Inl (Exn FileNotFoundError (''No such file or directory: '' @ path))
      | Some n \<Rightarrow> Inr n)"

text \<open>Lines 90 to 94: the counter, then the running average.\<close>

definition update_statistics :: "rat \<Rightarrow> stats \<Rightarrow> stats" where
  "update_statistics t st =
     (let st = st\<lparr>processed_count := processed_count st + 1\<rparr>
      in st\<lparr>avg_processing_time :=
              (avg_processing_time st * of_int (processed_count st - 1) + t)
              / of_int (processed_count st)\<rparr>)"

text \<open>
  The body of the \<^verbatim>\<open>try\<close> block of \<^verbatim>\<open>process_image\<close>, with the state each step leaves
  behind: an exception keeps what was done before it.
\<close>

definition try_process :: "env \<Rightarrow> config \<Rightarrow> string \<Rightarrow> string \<Rightarrow> rat \<Rightarrow> state
    \<Rightarrow> (exn + processing_result) \<times> state" where
  "try_process env cfg inp outp start_time s =
     (case validate_input (files s) inp of
        Inl e \<Rightarrow> (Inl e, s)
      | Inr _ \<Rightarrow>
     (case load_image env inp s of
        (Inl e, s1) \<Rightarrow> (Inl e, s1)
      | (Inr img, s1) \<Rightarrow>
     (case preprocess_pipeline env cfg img of
        Inl e \<Rightarrow> (Inl e, s1)
      | Inr processed \<Rightarrow>
     (case save_image env cfg processed outp s1 of
        (Inl e, s2) \<Rightarrow> (Inl e, s2)
      | (Inr _, s2) \<Rightarrow>
     (case now env s2 of (t, s3) \<Rightarrow>
      let elapsed = t - start_time;
          s4 = s3\<lparr>statistics := update_statistics elapsed (statistics s3)\<rparr>
      in
     (case getsize s4 inp of
        Inl e \<Rightarrow> (Inl e, s4)
      | Inr size_before \<Rightarrow>
     (case getsize s4 outp of
        Inl e \<Rightarrow> (Inl e, s4)
      | Inr size_after \<Rightarrow>
     (case calculate_quality_metrics env processed of
        Inl e \<Rightarrow> (Inl e, s4)
      | Inr metrics \<Rightarrow>
     (case now env s4 of (ts, s5) \<Rightarrow>
        (Inr \<lparr>success = True, error = None, input_path = inp, output_path = Some outp,
              original_size = Some (image_size img),
              processed_size = Some (image_size processed),
              processing_time = elapsed,
              file_size_before = Some size_before, file_size_after = Some size_after,
              preprocessing_applied = Some (get_applied_preprocessing cfg),
              quality_metrics = Some metrics, timestamp = Some ts\<rparr>, s5))))))))))"

text \<open>The \<^verbatim>\<open>except Exception\<close> clause.\<close>

definition on_exception :: "env \<Rightarrow> string \<Rightarrow> rat \<Rightarrow> exn \<Rightarrow> state \<Rightarrow> processing_result \<times> state" where
  "on_exception env inp start_time e s =
     (let s = s\<lparr>statistics := (statistics s)\<lparr>error_count := error_count (statistics s) + 1\<rparr>\<rparr>
      in case now env s of (t, s') \<Rightarrow>
           (\<lparr>success = False, error = Some (str e), input_path = inp, output_path = None,
             original_size = None, processed_size = None, processing_time = t - start_time,
             file_size_before = None, file_size_after = None, preprocessing_applied = None,
             quality_metrics = None, timestamp = None\<rparr>, s'))"

text \<open>
  The outcome of the \<^verbatim>\<open>try\<close> block of an invocation started in state \<open>s\<close>: the start
  time is the first clock reading.
\<close>

definition try_block :: "env \<Rightarrow> config \<Rightarrow> string \<Rightarrow> string \<Rightarrow> state
    \<Rightarrow> (exn + processing_result) \<times> state" where
  "try_block env cfg inp outp s =
     try_process env cfg inp outp (time_time env (ticks s)) (s\<lparr>ticks := Suc (ticks s)\<rparr>)"

definition process_image :: "env \<Rightarrow> config \<Rightarrow> string \<Rightarrow> string \<Rightarrow> state
    \<Rightarrow> processing_result \<times> state" where
  "process_image env cfg inp outp s =
     (case now env s of (start_time, s0) \<Rightarrow>
        (case try_process env cfg inp outp start_time s0 of
           (Inr result, s') \<Rightarrow> (result, s')
         | (Inl e, s') \<Rightarrow> on_exception env inp start_time e s'))"

text \<open>
  \<open>process_image\<close> is a call during which no exception outside \<^verbatim>\<open>Exception\<close> is raised
  and whose handler, if it runs, does not raise. A call of the entry point in general
  either returns a dictionary or propagates an exception. An exception outside
  \<^verbatim>\<open>Exception\<close> propagates wherever it is raised: before the \<^verbatim>\<open>try\<close> statement, inside it
  (also inside \<^verbatim>\<open>_load_image\<close> or \<^verbatim>\<open>_auto_crop_plant\<close>, whose clauses are
  \<^verbatim>\<open>except Exception\<close> too) or in the handler. An exception raised by the handler
  propagates when the handler runs, that is when the \<^verbatim>\<open>try\<close> block has raised.
\<close>

datatype outcome = Returns processing_result state | Propagates propagated

definition process_image_call :: "env \<Rightarrow> config \<Rightarrow> string \<Rightarrow> string \<Rightarrow> state \<Rightarrow> outcome" where
  "process_image_call env cfg inp outp s =
     (case interrupt env of
        Some b \<Rightarrow> Propagates (Uncaught b)
      | None \<Rightarrow>
          (case try_block env cfg inp outp s of
             (Inr result, s') \<Rightarrow> Returns result s'
           | (Inl e, s') \<Rightarrow>
               (case handler_error env of
                  Some e' \<Rightarrow> Propagates (FromHandler e')
                | None \<Rightarrow>
                    (case on_exception env inp (time_time env (ticks s)) e s' of
                       (result, s'') \<Rightarrow> Returns result s''))))"

text \<open>
  A stage that only calls a library keeps the size of the buffer when the library does.
\<close>

definition keeps_size :: "(image \<Rightarrow> exn + image) \<Rightarrow> bool" where
  "keeps_size f = (\<forall>img out. f img = Inr out \<longrightarrow> image_size out = image_size img)"

section \<open>A small world for concrete runs\<close>

text \<open>
  A two-pixel photograph without foliage, libraries that always succeed, and a processor
  configured for a 1 x 1 target. The concrete runs below evaluate the model here.
\<close>

definition sample_image :: image where
  "sample_image = \<lparr>width = 2, height = 1, pixels = [(100, 101, 50), (200, 30, 30)]\<rparr>"

definition sample_env :: env where
  "sample_env =
     \<lparr>time_time = (\<lambda>k. of_nat k),
      Image_open = (\<lambda>path. Inr sample_image),
      Image_save = (\<lambda>img path q progressive. Inr 7),
      resample_lanczos = (\<lambda>img sz. replicate (nat (fst sz * snd sz)) (pixel_at img 0 0)),
      cvtColor_HSV = (\<lambda>img. Inr \<lparr>width = width img, height = height img,
                                   pixels = map (\<lambda>p. (0, green p, red p)) (pixels img)\<rparr>),
      findContours = (\<lambda>mask. Inr (if list_all (\<lambda>b. b = 0) (pixels mask) then []
                                   else [[(0, 0), (width mask - 1, height mask - 1)]])),
      normalize_lighting = Inr,
      enhance_contrast = (\<lambda>img factor. Inr img),
      enhance_sharpness = (\<lambda>img factor. Inr img),
      reduce_noise = Inr,
      calculate_quality_metrics =
        (\<lambda>img. Inr \<lparr>brightness = 1 / 2, contrast = 1 / 4, sharpness = 1 / 8\<rparr>),
      numpy = float32,
      interrupt = None,
      handler_error = None\<rparr>"

definition sample_config :: config where
  "sample_config = default_config\<lparr>target_size := (1, 1)\<rparr>"

definition sample_state :: state where
  "sample_state =
     \<lparr>statistics = initial_stats,
      files = [''field/leaf.JPG'' \<mapsto> 4096, ''field/scan.gif'' \<mapsto> 512,
               ''field/huge.png'' \<mapsto> 30000000],
      ticks = 0, opened = []\<rparr>"

text \<open>The same world, with a quality scorer that runs out of memory.\<close>

definition scorer_fails_env :: env where
  "scorer_fails_env =
     sample_env\<lparr>calculate_quality_metrics :=
       (\<lambda>img. Inl (Exn MemoryError ''Unable to allocate array''))\<rparr>"

text \<open>The same world, with a color conversion that raises inside the subject locator.\<close>

definition locator_fails_env :: env where
  "locator_fails_env =
     sample_env\<lparr>cvtColor_HSV := (\<lambda>img. Inl (Exn Cv2Error ''cvtColor failed''))\<rparr>"

text \<open>
  The same world, in which the user interrupts the call, and in which formatting the
  exception caught raises.
\<close>

definition interrupted_env :: env where
  "interrupted_env = sample_env\<lparr>interrupt := Some KeyboardInterrupt\<rparr>"

definition unprintable_env :: env where
  "unprintable_env =
     sample_env\<lparr>handler_error := Some (Exn ValueError ''__str__ returned non-string'')\<rparr>"

text \<open>A 9 x 7 buffer and a processor configured for the same 9 x 7 target.\<close>

definition nine_by_seven :: image where
  "nine_by_seven = \<lparr>width = 9, height = 7, pixels = replicate 63 (10, 20, 30)\<rparr>"

definition nine_by_seven_config :: config where
  "nine_by_seven_config = default_config\<lparr>target_size := (9, 7)\<rparr>"




section \<open>Properties of the rounding\<close>

lemma pow2_powi: "pow2 k = 2 powi k"
  by (simp add: pow2_def power_int_def inverse_eq_divide power_one_over)

lemma pow2_pos: "0 < pow2 k"
  by (simp add: pow2_def)

lemma pow2_add: "pow2 (a + b) = pow2 a * pow2 b"
  by (simp add: pow2_powi power_int_add)

lemma pow2_mono: "a \<le> b \<Longrightarrow> pow2 a \<le> pow2 b"
  by (simp add: pow2_powi power_int_increasing)

lemma pow2_strict_mono: "a < b \<Longrightarrow> pow2 a < pow2 b"
  by (simp add: pow2_powi power_int_strict_increasing)

lemma pow2_less_cancel: "pow2 a < pow2 b \<Longrightarrow> a < b"
  using pow2_mono[of b a] by (cases "a < b") auto

lemma of_int_bitlen_bounds:
  assumes "0 < p"
  shows "pow2 (bitlen p - 1) \<le> of_int p" "of_int p < pow2 (bitlen p)"
proof -
  from bitlen_bounds[OF assms] have b: "2 ^ nat (bitlen p - 1) \<le> p" "p < 2 ^ nat (bitlen p)"
    by simp_all
  from b(2) assms have "0 < bitlen p"
    by (metis bitlen_eq_zero_iff bitlen_nonneg leD order_le_less)
  then have n: "0 \<le> bitlen p - 1" "0 \<le> bitlen p" by simp_all
  have "(of_int (2 ^ nat (bitlen p - 1)) :: rat) \<le> of_int p" using b(1) by (simp only: of_int_le_iff)
  then show "pow2 (bitlen p - 1) \<le> of_int p" using n by (simp add: pow2_def)
  have "(of_int p :: rat) < of_int (2 ^ nat (bitlen p))" using b(2) by (simp only: of_int_less_iff)
  then show "of_int p < pow2 (bitlen p)" using n by (simp add: pow2_def)
qed

lemma floorlog2_bounds:
  assumes "0 < x"
  shows "pow2 (floorlog2 x) \<le> x \<and> x < pow2 (floorlog2 x + 1)"
proof -
  obtain p q where pq: "quotient_of x = (p, q)" by (cases "quotient_of x")
  then have q: "0 < q" and x: "x = of_int p / of_int q"
    using quotient_of_denom_pos[OF pq] quotient_of_div[OF pq] by simp_all
  with assms have p: "0 < p" by (simp add: zero_less_divide_iff)
  let ?k = "bitlen p - bitlen q"
  have qr: "(0::rat) < of_int q" using q by simp
  note bp = of_int_bitlen_bounds[OF p] and bq = of_int_bitlen_bounds[OF q]
  have up: "x < pow2 (?k + 1)"
  proof -
    have "x * of_int q < pow2 (bitlen p)" using bp(2) qr by (simp add: x)
    also have "\<dots> = pow2 (?k + 1) * pow2 (bitlen q - 1)"
      by (simp add: pow2_add[symmetric])
    also have "\<dots> \<le> pow2 (?k + 1) * of_int q"
      using bq(1) pow2_pos[of "?k + 1"] by (simp add: mult_left_mono)
    finally show ?thesis using qr by simp
  qed
  have lo: "pow2 (?k - 1) < x"
  proof -
    have "pow2 (?k - 1) * of_int q < pow2 (?k - 1) * pow2 (bitlen q)"
      using bq(2) pow2_pos[of "?k - 1"] by (simp add: mult_strict_left_mono)
    also have "\<dots> = pow2 (bitlen p - 1)" by (simp add: pow2_add[symmetric])
    also have "\<dots> \<le> x * of_int q" using bp(1) qr by (simp add: x)
    finally show ?thesis using qr by simp
  qed
  show ?thesis
  proof (cases "pow2 ?k \<le> x")
    case True
    then have "floorlog2 x = ?k" by (simp add: floorlog2_def pq)
    with True up show ?thesis by simp
  next
    case False
    then have "floorlog2 x = ?k - 1" by (simp add: floorlog2_def pq)
    with False lo show ?thesis by simp
  qed
qed

lemma floorlog2_unique:
  assumes "0 < x" "pow2 e \<le> x" "x < pow2 (e + 1)"
  shows "floorlog2 x = e"
proof -
  from floorlog2_bounds[OF assms(1)] have b: "pow2 (floorlog2 x) \<le> x" "x < pow2 (floorlog2 x + 1)"
    by simp_all
  from b(1) assms(3) have "pow2 (floorlog2 x) < pow2 (e + 1)" by simp
  then have 1: "floorlog2 x < e + 1" by (rule pow2_less_cancel)
  from assms(2) b(2) have "pow2 e < pow2 (floorlog2 x + 1)" by simp
  then have 2: "e < floorlog2 x + 1" by (rule pow2_less_cancel)
  from 1 2 show ?thesis by simp
qed

lemma round_half_even_unique:
  assumes "\<bar>q - of_int k\<bar> < 1 / 2"
  shows "round_half_even q = k"
proof (cases "of_int k \<le> q")
  case True
  with assms have "\<lfloor>q\<rfloor> = k" by (intro floor_unique) (simp_all add: abs_less_iff)
  with assms True show ?thesis by (simp add: round_half_even_def Let_def abs_less_iff)
next
  case False
  with assms have f: "\<lfloor>q\<rfloor> = k - 1" by (intro floor_unique) (simp_all add: abs_less_iff)
  from assms False have "1 / 2 < q - of_int (k - 1)" by (simp add: abs_less_iff)
  with f show ?thesis by (simp add: round_half_even_def Let_def)
qed

lemma round_half_even_error: "\<bar>of_int (round_half_even q) - q\<bar> \<le> 1 / 2"
proof -
  have "of_int \<lfloor>q\<rfloor> \<le> q" "q < of_int \<lfloor>q\<rfloor> + 1" by linarith+
  then show ?thesis by (auto simp add: round_half_even_def Let_def abs_le_iff)
qed


lemma pow2_nat: "0 \<le> k \<Longrightarrow> pow2 k = of_int (2 ^ nat k)"
  by (simp add: pow2_def)

lemma round_half_even_of_int: "round_half_even (of_int k) = k"
  by (simp add: round_half_even_def)

lemma round_half_even_mono:
  assumes "q1 \<le> q2"
  shows "round_half_even q1 \<le> round_half_even q2"
proof (rule ccontr)
  assume "\<not> ?thesis"
  then have lt: "round_half_even q2 + 1 \<le> round_half_even q1" by simp
  then have "(of_int (round_half_even q2 + 1) :: rat) \<le> of_int (round_half_even q1)"
    by (simp only: of_int_le_iff)
  then have k: "(of_int (round_half_even q2) :: rat) + 1 \<le> of_int (round_half_even q1)" by simp
  have e1: "of_int (round_half_even q1) - q1 \<le> 1 / 2"
    using round_half_even_error[of q1] by linarith
  have e2: "q2 - of_int (round_half_even q2) \<le> 1 / 2"
    using round_half_even_error[of q2] by linarith
  from k e1 e2 assms have "q1 = q2" by linarith
  with lt show False by simp
qed

lemma floorlog2_mono:
  assumes "0 < x" "x \<le> y"
  shows "floorlog2 x \<le> floorlog2 y"
proof -
  from assms have y: "0 < y" by simp
  from floorlog2_bounds[OF assms(1)] floorlog2_bounds[OF y] assms(2)
  have "pow2 (floorlog2 x) < pow2 (floorlog2 y + 1)" by simp
  then have "floorlog2 x < floorlog2 y + 1" by (rule pow2_less_cancel)
  then show ?thesis by simp
qed

lemma round_to_zero: "round_to p emin 0 = 0"
  by (simp add: round_to_def)

lemma round_to_minus: "round_to p emin (- x) = - round_to p emin x"
  by (simp add: round_to_def Let_def)

lemma round_to_pos:
  assumes "0 < x"
  shows "round_to p emin x =
           of_int (round_half_even (x / pow2 (max (floorlog2 x) emin - (p - 1))))
           * pow2 (max (floorlog2 x) emin - (p - 1))"
  using assms by (simp add: round_to_def Let_def)

lemma scaled_bounds:
  assumes p: "0 < p" and x: "0 < x"
  shows "0 \<le> round_half_even (x / pow2 (max (floorlog2 x) emin - (p - 1)))"
    and "round_half_even (x / pow2 (max (floorlog2 x) emin - (p - 1))) \<le> 2 ^ nat p"
    and "emin \<le> floorlog2 x \<Longrightarrow>
           2 ^ nat (p - 1) \<le> round_half_even (x / pow2 (max (floorlog2 x) emin - (p - 1)))"
proof -
  let ?e = "max (floorlog2 x) emin"
  let ?u = "pow2 (?e - (p - 1))"
  have u: "0 < ?u" by (rule pow2_pos)
  have "0 \<le> x / ?u" using x u by simp
  from round_half_even_mono[OF this] show "0 \<le> round_half_even (x / ?u)"
    using round_half_even_of_int[of 0] by simp
  have "x < pow2 (floorlog2 x + 1)" using floorlog2_bounds[OF x] by simp
  also have "\<dots> \<le> pow2 (?e + 1)" by (intro pow2_mono) simp
  also have "\<dots> = pow2 p * ?u" by (simp add: pow2_add[symmetric])
  finally have "x / ?u < pow2 p" using u by (simp add: pos_divide_less_eq)
  then have "x / ?u \<le> of_int (2 ^ nat p)" using p by (simp add: pow2_nat)
  from round_half_even_mono[OF this] show "round_half_even (x / ?u) \<le> 2 ^ nat p"
    by (simp only: round_half_even_of_int)
  show "2 ^ nat (p - 1) \<le> round_half_even (x / ?u)" if n: "emin \<le> floorlog2 x"
  proof -
    from n have e: "?e = floorlog2 x" by simp
    have "pow2 (p - 1) * ?u = pow2 (floorlog2 x)" by (simp add: pow2_add[symmetric] e)
    also have "\<dots> \<le> x" using floorlog2_bounds[OF x] by simp
    finally have "pow2 (p - 1) \<le> x / ?u" using u by (simp add: pos_le_divide_eq)
    then have "of_int (2 ^ nat (p - 1)) \<le> x / ?u" using p by (simp add: pow2_nat)
    from round_half_even_mono[OF this] show ?thesis
      by (simp only: round_half_even_of_int)
  qed
qed

lemma round_to_nonneg:
  assumes "0 < p" "0 \<le> x"
  shows "0 \<le> round_to p emin x"
proof (cases "x = 0")
  case True
  then show ?thesis by (simp add: round_to_zero)
next
  case False
  with assms have x: "0 < x" by simp
  show ?thesis
    using scaled_bounds(1)[OF assms(1) x, of emin] pow2_pos
    by (simp add: round_to_pos[OF x] less_imp_le)
qed

lemma round_to_upper:
  assumes p: "0 < p" and x: "0 < x"
  shows "round_to p emin x \<le> pow2 (max (floorlog2 x) emin + 1)"
proof -
  let ?e = "max (floorlog2 x) emin"
  let ?u = "pow2 (?e - (p - 1))"
  have u: "0 < ?u" by (rule pow2_pos)
  have "(of_int (round_half_even (x / ?u)) :: rat) \<le> of_int (2 ^ nat p)"
    using scaled_bounds(2)[OF p x, of emin] by (simp only: of_int_le_iff)
  then have "of_int (round_half_even (x / ?u)) * ?u \<le> pow2 p * ?u"
    using u p by (intro mult_right_mono) (simp_all add: pow2_nat)
  also have "\<dots> = pow2 (?e + 1)" by (simp add: pow2_add[symmetric])
  finally show ?thesis by (simp only: round_to_pos[OF x])
qed

lemma round_to_lower:
  assumes p: "0 < p" and x: "0 < x" and n: "emin \<le> floorlog2 x"
  shows "pow2 (floorlog2 x) \<le> round_to p emin x"
proof -
  let ?e = "max (floorlog2 x) emin"
  let ?u = "pow2 (?e - (p - 1))"
  have u: "0 < ?u" by (rule pow2_pos)
  from n have e: "?e = floorlog2 x" by simp
  have "(of_int (2 ^ nat (p - 1)) :: rat) \<le> of_int (round_half_even (x / ?u))"
    using scaled_bounds(3)[OF p x n] by (simp only: of_int_le_iff)
  then have "pow2 (p - 1) * ?u \<le> of_int (round_half_even (x / ?u)) * ?u"
    using u p by (intro mult_right_mono) (simp_all add: pow2_nat)
  moreover have "pow2 (p - 1) * ?u = pow2 (floorlog2 x)" by (simp add: pow2_add[symmetric] e)
  ultimately show ?thesis by (simp only: round_to_pos[OF x])
qed

lemma round_to_mono_pos:
  assumes p: "0 < p" and x: "0 < x" and xy: "x \<le> y"
  shows "round_to p emin x \<le> round_to p emin y"
proof -
  from x xy have y: "0 < y" by simp
  let ?ex = "max (floorlog2 x) emin" and ?ey = "max (floorlog2 y) emin"
  have le: "?ex \<le> ?ey" using floorlog2_mono[OF x xy] by simp
  show ?thesis
  proof (cases "?ex = ?ey")
    case True
    let ?u = "pow2 (?ey - (p - 1))"
    have u: "0 < ?u" by (rule pow2_pos)
    have "x / ?u \<le> y / ?u" using xy u by (simp add: divide_right_mono)
    from round_half_even_mono[OF this]
    have "(of_int (round_half_even (x / ?u)) :: rat) \<le> of_int (round_half_even (y / ?u))"
      by (simp only: of_int_le_iff)
    then have "of_int (round_half_even (x / ?u)) * ?u \<le> of_int (round_half_even (y / ?u)) * ?u"
      using u by (intro mult_right_mono) simp_all
    then show ?thesis by (simp only: round_to_pos[OF x] round_to_pos[OF y] True)
  next
    case False
    from le False have lt: "?ex < ?ey" by (rule le_neq_trans)
    then have n: "emin \<le> floorlog2 y" and ey: "?ey = floorlog2 y"
      by (simp_all add: max_def split: if_splits)
    have "round_to p emin x \<le> pow2 (?ex + 1)" by (rule round_to_upper[OF p x])
    also have "\<dots> \<le> pow2 (floorlog2 y)" using lt ey by (intro pow2_mono) linarith
    also have "\<dots> \<le> round_to p emin y" by (rule round_to_lower[OF p y n])
    finally show ?thesis .
  qed
qed

lemma round_to_mono:
  assumes p: "0 < p" and xy: "x \<le> y"
  shows "round_to p emin x \<le> round_to p emin y"
proof -
  consider "0 < x" | "x \<le> 0" "0 \<le> y" | "y < 0" using xy by linarith
  then show ?thesis
  proof cases
    case 1
    then show ?thesis by (rule round_to_mono_pos[OF p _ xy])
  next
    case 2
    have "0 \<le> round_to p emin (- x)" using 2 by (intro round_to_nonneg[OF p]) simp
    then have "round_to p emin x \<le> 0" by (simp add: round_to_minus)
    also have "0 \<le> round_to p emin y" using 2 by (intro round_to_nonneg[OF p])
    finally show ?thesis .
  next
    case 3
    then have "0 < - y" "- y \<le> - x" using xy by simp_all
    from round_to_mono_pos[OF p this] show ?thesis by (simp add: round_to_minus)
  qed
qed

lemma round_to_representable:
  assumes p: "0 < p" and m: "0 < m" "m < 2 ^ nat p" and t: "emin - (p - 1) \<le> t"
  shows "round_to p emin (of_int m * pow2 t) = of_int m * pow2 t"
proof -
  define x where "x = of_int m * pow2 t"
  have x: "0 < x" using m pow2_pos[of t] by (simp add: x_def)
  have "(of_int m :: rat) < of_int (2 ^ nat p)" using m(2) by (simp only: of_int_less_iff)
  then have "(of_int m :: rat) < pow2 p" using p by (simp add: pow2_nat)
  then have "x < pow2 p * pow2 t"
    unfolding x_def using pow2_pos[of t] by (simp add: mult_strict_right_mono)
  then have "x < pow2 (p + t)" by (simp add: pow2_add)
  with floorlog2_bounds[OF x] have "pow2 (floorlog2 x) < pow2 (p + t)" by simp
  then have f: "floorlog2 x < p + t" by (rule pow2_less_cancel)
  define e where "e = max (floorlog2 x) emin"
  define u where "u = pow2 (e - (p - 1))"
  have u: "0 < u" unfolding u_def by (rule pow2_pos)
  define d where "d = t - (e - (p - 1))"
  have d: "0 \<le> d" using f t by (simp add: d_def e_def)
  have "pow2 t = pow2 d * u" by (simp add: pow2_add[symmetric] d_def u_def)
  then have xu: "x = of_int (m * 2 ^ nat d) * u" using d by (simp add: x_def pow2_nat)
  then have q: "x / u = of_int (m * 2 ^ nat d)" using u by simp
  have "round_to p emin x = of_int (round_half_even (x / u)) * u"
    unfolding u_def e_def by (rule round_to_pos[OF x])
  also have "\<dots> = x" by (simp only: q round_half_even_of_int xu[symmetric])
  finally show ?thesis by (simp only: x_def)
qed

lemma round_to_idem:
  assumes p: "0 < p"
  shows "round_to p emin (round_to p emin x) = round_to p emin x"
proof -
  have pos: "round_to p emin (round_to p emin x) = round_to p emin x" if x: "0 < x" for x
  proof -
    let ?e = "max (floorlog2 x) emin"
    let ?u = "pow2 (?e - (p - 1))"
    define k where "k = round_half_even (x / ?u)"
    have r: "round_to p emin x = of_int k * ?u" by (simp only: round_to_pos[OF x] k_def)
    have k: "0 \<le> k" "k \<le> 2 ^ nat p"
      using scaled_bounds(1,2)[OF p x, of emin] by (simp_all add: k_def)
    consider "k = 0" | "0 < k" "k < 2 ^ nat p" | "k = 2 ^ nat p" using k by linarith
    then show ?thesis
    proof cases
      case 1
      then show ?thesis by (simp add: r round_to_zero)
    next
      case 2
      have "emin - (p - 1) \<le> ?e - (p - 1)" by simp
      from round_to_representable[OF p 2 this] show ?thesis by (simp only: r)
    next
      case 3
      have "nat p = Suc (nat (p - 1))" using p by simp
      then have h: "(2::int) ^ nat p = 2 ^ nat (p - 1) * 2" by simp
      have "of_int k * ?u = of_int (2 ^ nat (p - 1)) * (pow2 1 * ?u)"
        by (simp add: 3 h pow2_def)
      then have e: "of_int k * ?u = of_int (2 ^ nat (p - 1)) * pow2 (?e - (p - 1) + 1)"
        by (simp add: pow2_add[symmetric] add.commute)
      have m: "(0::int) < 2 ^ nat (p - 1)" "(2::int) ^ nat (p - 1) < 2 ^ nat p"
        using p by (simp_all add: h)
      have "emin - (p - 1) \<le> ?e - (p - 1) + 1" by simp
      from round_to_representable[OF p m this] show ?thesis by (simp only: r e)
    qed
  qed
  consider "x = 0" | "0 < x" | "0 < - x" by linarith
  then show ?thesis
  proof cases
    case 1
    then show ?thesis by (simp add: round_to_zero)
  next
    case 2
    then show ?thesis by (rule pos)
  next
    case 3
    from pos[OF 3] show ?thesis by (simp add: round_to_minus)
  qed
qed

lemma round_to_of_int:
  assumes p: "0 < p" and e: "emin \<le> p - 1" and n: "\<bar>n\<bar> < 2 ^ nat p"
  shows "round_to p emin (of_int n) = of_int n"
proof -
  have pos: "round_to p emin (of_int m) = of_int m" if "0 < m" "m < 2 ^ nat p" for m
    using round_to_representable[OF p that, of emin 0] e by (simp add: pow2_def)
  consider "n = 0" | "0 < n" | "0 < - n" by linarith
  then show ?thesis
  proof cases
    case 1
    then show ?thesis by (simp add: round_to_zero)
  next
    case 2
    with n pos[of n] show ?thesis by simp
  next
    case 3
    with n pos[of "- n"] show ?thesis by (simp add: round_to_minus)
  qed
qed










lemma f64_mono: "x \<le> y \<Longrightarrow> f64 x \<le> f64 y"
  by (simp add: f64_def round_to_mono)

lemma f64_idem: "f64 (f64 x) = f64 x"
  by (simp add: f64_def round_to_idem)

lemma f64_of_int: "\<bar>n\<bar> < 2 ^ 53 \<Longrightarrow> f64 (of_int n) = of_int n"
  using round_to_of_int[of 53 "- 1022" n] by (simp add: f64_def)

lemma f64_nonneg: "0 \<le> x \<Longrightarrow> 0 \<le> f64 x"
  by (simp add: f64_def round_to_nonneg)

lemma f64_representable:
  assumes "0 < m" "m < 2 ^ 53" "- 1074 \<le> t"
  shows "f64 (of_int m * pow2 t) = of_int m * pow2 t"
  using round_to_representable[of 53 m "- 1022" t] assms by (simp add: f64_def)

lemma f64_one: "f64 1 = 1"
  using f64_of_int[of 1] by simp

lemma f64_two: "f64 2 = 2"
  using f64_of_int[of 2] by simp

lemma f64_gt_imp_gt:
  assumes "f64 x < f64 y"
  shows "x < f64 y"
proof (rule ccontr)
  assume "\<not> ?thesis"
  then have "f64 y \<le> x" by simp
  from f64_mono[OF this] assms show False by (simp add: f64_idem)
qed


section \<open>Properties of one invocation\<close>

lemmas sample_defs =
  process_image_def try_process_def on_exception_def now_def validate_input_def
  load_image_def save_image_def getsize_def update_statistics_def preprocess_pipeline_def
  smart_resize_def scaled_size_def resize_center_crop_def pil_resize_def pil_crop_def
  auto_crop_plant_def auto_crop_try_def inRange_def in_range_def lower_green_def upper_green_def
  enhance_quality_def sample_env_def sample_config_def sample_state_def
  sample_image_def default_config_def initial_stats_def image_size_def py_int_def pixel_at_def
  f64_one f64_two
  lower_def path_suffix_def path_name_def rfind_def lower_char_def supported_formats_def
  red_def green_def blue_def ends_with_def get_applied_preprocessing_def

lemma sample_run_succeeds:
  "success (fst (process_image sample_env sample_config ''field/leaf.JPG'' ''out/leaf.jpg''
     sample_state))"
  by (simp add: sample_defs)

text \<open>What a run of the \<^verbatim>\<open>try\<close> block that reaches its \<^verbatim>\<open>return\<close> leaves behind.\<close>

lemma try_process_InrD:
  assumes "try_process env cfg inp outp t0 s = (Inr r, s')"
  shows "success r \<and> error r = None \<and> input_path r = inp
     \<and> preprocessing_applied r = Some (get_applied_preprocessing cfg)
     \<and> processed_count (statistics s') = processed_count (statistics s) + 1
     \<and> error_count (statistics s') = error_count (statistics s)"
  using assms unfolding try_process_def
  by (auto simp add: Let_def now_def load_image_def save_image_def update_statistics_def
      split: sum.splits prod.splits)

text \<open>What the \<^verbatim>\<open>except\<close> clause returns and changes.\<close>

lemma on_exceptionD:
  assumes "on_exception env inp t0 e s = (r, s')"
  shows "\<not> success r \<and> error r = Some (str e) \<and> input_path r = inp
     \<and> processing_time r = time_time env (ticks s) - t0
     \<and> processed_count (statistics s') = processed_count (statistics s)
     \<and> avg_processing_time (statistics s') = avg_processing_time (statistics s)
     \<and> error_count (statistics s') = error_count (statistics s) + 1
     \<and> opened s' = opened s"
  using assms unfolding on_exception_def
  by (auto simp add: Let_def now_def)

text \<open>An invocation either returns from the \<^verbatim>\<open>try\<close> block or goes through the handler.\<close>

lemma process_image_cases:
  obtains (ok) r s' where
      "try_process env cfg inp outp (time_time env (ticks s)) (s\<lparr>ticks := Suc (ticks s)\<rparr>)
         = (Inr r, s')"
      "process_image env cfg inp outp s = (r, s')"
  | (fail) e s1 where
      "try_process env cfg inp outp (time_time env (ticks s)) (s\<lparr>ticks := Suc (ticks s)\<rparr>)
         = (Inl e, s1)"
      "process_image env cfg inp outp s = on_exception env inp (time_time env (ticks s)) e s1"
proof -
  obtain x s1 where t:
    "try_process env cfg inp outp (time_time env (ticks s)) (s\<lparr>ticks := Suc (ticks s)\<rparr>)
       = (x, s1)"
    by (cases "try_process env cfg inp outp (time_time env (ticks s))
                 (s\<lparr>ticks := Suc (ticks s)\<rparr>)")
  show thesis
  proof (cases x)
    case (Inl e)
    with t show thesis by (intro fail[of e s1]) (simp_all add: process_image_def now_def)
  next
    case (Inr r)
    with t show thesis by (intro ok[of r s1]) (simp_all add: process_image_def now_def)
  qed
qed

lemma process_image_success:
  assumes "success (fst (process_image env cfg inp outp s))"
  shows "preprocessing_applied (fst (process_image env cfg inp outp s))
           = Some (get_applied_preprocessing cfg)"
proof (cases rule: process_image_cases[of env cfg inp outp s])
  case (ok r s')
  then show ?thesis using try_process_InrD[OF ok(1)] by simp
next
  case (fail e s1)
  obtain r s' where o: "on_exception env inp (time_time env (ticks s)) e s1 = (r, s')"
    by (cases "on_exception env inp (time_time env (ticks s)) e s1")
  with fail assms on_exceptionD[OF o] show ?thesis by simp
qed

lemma process_image_try_block:
  "process_image env cfg inp outp s =
     (case try_block env cfg inp outp s of
        (Inr r, s') \<Rightarrow> (r, s')
      | (Inl e, s') \<Rightarrow> on_exception env inp (time_time env (ticks s)) e s')"
  by (simp add: process_image_def try_block_def now_def)

lemma on_exception_eq:
  "on_exception env inp t0 e s =
     (\<lparr>success = False, error = Some (str e), input_path = inp, output_path = None,
       original_size = None, processed_size = None,
       processing_time = time_time env (ticks s) - t0,
       file_size_before = None, file_size_after = None, preprocessing_applied = None,
       quality_metrics = None, timestamp = None\<rparr>,
      s\<lparr>statistics := (statistics s)\<lparr>error_count := error_count (statistics s) + 1\<rparr>,
        ticks := Suc (ticks s)\<rparr>)"
  by (simp add: on_exception_def now_def Let_def)

subsection \<open>Exceptions at the entry point\<close>

text \<open>Where the \<^verbatim>\<open>try\<close> block can raise, step by step.\<close>

lemma decode_failure:
  assumes "validate_input (files s) inp = Inr ()" "Image_open env inp = Inl e"
  shows "try_block env cfg inp outp s =
     (Inl (Exn ValueError (''Failed to load image: '' @ str e)),
      s\<lparr>ticks := Suc (ticks s), opened := inp # opened s\<rparr>)"
  using assms by (simp add: try_block_def try_process_def load_image_def)

lemma pipeline_failure:
  assumes "validate_input (files s) inp = Inr ()" "Image_open env inp = Inr img"
    "preprocess_pipeline env cfg img = Inl e"
  shows "try_block env cfg inp outp s =
     (Inl e, s\<lparr>ticks := Suc (ticks s), opened := inp # opened s\<rparr>)"
  using assms by (simp add: try_block_def try_process_def load_image_def)

lemma save_failure:
  assumes "validate_input (files s) inp = Inr ()" "Image_open env inp = Inr img"
    "preprocess_pipeline env cfg img = Inr processed"
    "Image_save env processed outp (quality cfg)
       (ends_with (lower outp) ''.jpg'' \<or> ends_with (lower outp) ''.jpeg'') = Inl e"
  shows "try_block env cfg inp outp s =
     (Inl e, s\<lparr>ticks := Suc (ticks s), opened := inp # opened s\<rparr>)"
  using assms by (simp add: try_block_def try_process_def load_image_def save_image_def)

lemma validate_input_InrD: "validate_input fs inp = Inr u \<Longrightarrow> \<exists>n. fs inp = Some n"
  by (auto simp: validate_input_def split: option.splits if_splits)

lemma scorer_failure:
  assumes "validate_input (files s) inp = Inr ()" "Image_open env inp = Inr img"
    "preprocess_pipeline env cfg img = Inr processed"
    "Image_save env processed outp (quality cfg)
       (ends_with (lower outp) ''.jpg'' \<or> ends_with (lower outp) ''.jpeg'') = Inr n"
    "calculate_quality_metrics env processed = Inl e"
  shows "\<exists>s1. try_block env cfg inp outp s = (Inl e, s1) \<and> ticks s1 = Suc (Suc (ticks s))"
proof -
  from validate_input_InrD[OF assms(1)] obtain k where "files s inp = Some k" ..
  with assms show ?thesis
    by (simp add: try_block_def try_process_def load_image_def save_image_def now_def
        getsize_def Let_def)
qed

lemma process_image_call_eq:
  assumes "interrupt env = None" "handler_error env = None"
  shows "process_image_call env cfg inp outp s =
     Returns (fst (process_image env cfg inp outp s)) (snd (process_image env cfg inp outp s))"
  using assms
  by (simp add: process_image_call_def process_image_try_block split: prod.splits sum.splits)

text \<open>
  Claim C4, as amended. A call during which no exception outside \<^verbatim>\<open>Exception\<close> is
  raised, and whose handler does not raise while it formats the exception, returns a
  result record that names the input path. Whenever a step of the \<^verbatim>\<open>try\<close> block raises
  an exception below \<^verbatim>\<open>Exception\<close> (validation, the decoder, a pipeline stage, the save
  or the quality scorer), the record is the failure record: \<open>success\<close> is false, \<open>error\<close>
  is the text of the exception, and \<open>processing_time\<close> is the clock reading taken in the
  handler minus the start time. When no step raises, the record is the one the \<^verbatim>\<open>try\<close>
  block built, with \<open>success\<close> true. An exception outside \<^verbatim>\<open>Exception\<close> propagates, and
  so does an exception raised by the handler once the \<^verbatim>\<open>try\<close> block has raised.
\<close>

theorem process_image_catches_exceptions:
  "(interrupt env = None \<and> handler_error env = None \<longrightarrow>
      (\<exists>r s'. process_image_call env cfg inp outp s = Returns r s' \<and> input_path r = inp
         \<and> (\<forall>e s1. try_block env cfg inp outp s = (Inl e, s1) \<longrightarrow>
               r = \<lparr>success = False, error = Some (str e), input_path = inp,
                    output_path = None, original_size = None, processed_size = None,
                    processing_time = time_time env (ticks s1) - time_time env (ticks s),
                    file_size_before = None, file_size_after = None,
                    preprocessing_applied = None, quality_metrics = None,
                    timestamp = None\<rparr>)
         \<and> (\<forall>r0 s1. try_block env cfg inp outp s = (Inr r0, s1) \<longrightarrow>
               r = r0 \<and> s' = s1 \<and> success r \<and> error r = None)))
   \<and> (\<forall>e. validate_input (files s) inp = Inl e \<longrightarrow>
         try_block env cfg inp outp s = (Inl e, s\<lparr>ticks := Suc (ticks s)\<rparr>))
   \<and> (\<forall>e. validate_input (files s) inp = Inr () \<and> Image_open env inp = Inl e \<longrightarrow>
         try_block env cfg inp outp s =
           (Inl (Exn ValueError (''Failed to load image: '' @ str e)),
            s\<lparr>ticks := Suc (ticks s), opened := inp # opened s\<rparr>))
   \<and> (\<forall>img e. validate_input (files s) inp = Inr () \<and> Image_open env inp = Inr img
         \<and> preprocess_pipeline env cfg img = Inl e \<longrightarrow>
         try_block env cfg inp outp s =
           (Inl e, s\<lparr>ticks := Suc (ticks s), opened := inp # opened s\<rparr>))
   \<and> (\<forall>img processed e. validate_input (files s) inp = Inr () \<and> Image_open env inp = Inr img
         \<and> preprocess_pipeline env cfg img = Inr processed
         \<and> Image_save env processed outp (quality cfg)
              (ends_with (lower outp) ''.jpg'' \<or> ends_with (lower outp) ''.jpeg'') = Inl e \<longrightarrow>
         try_block env cfg inp outp s =
           (Inl e, s\<lparr>ticks := Suc (ticks s), opened := inp # opened s\<rparr>))
   \<and> (\<forall>img processed n e. validate_input (files s) inp = Inr () \<and> Image_open env inp = Inr img
         \<and> preprocess_pipeline env cfg img = Inr processed
         \<and> Image_save env processed outp (quality cfg)
              (ends_with (lower outp) ''.jpg'' \<or> ends_with (lower outp) ''.jpeg'') = Inr n
         \<and> calculate_quality_metrics env processed = Inl e \<longrightarrow>
         (\<exists>s1. try_block env cfg inp outp s = (Inl e, s1) \<and> ticks s1 = Suc (Suc (ticks s))))
   \<and> (\<forall>b. interrupt env = Some b \<longrightarrow>
         process_image_call env cfg inp outp s = Propagates (Uncaught b))
   \<and> (\<forall>e' e s1. interrupt env = None \<and> handler_error env = Some e'
         \<and> try_block env cfg inp outp s = (Inl e, s1) \<longrightarrow>
         process_image_call env cfg inp outp s = Propagates (FromHandler e'))"
proof -
  have ret: "\<exists>r s'. process_image_call env cfg inp outp s = Returns r s' \<and> input_path r = inp
         \<and> (\<forall>e s1. try_block env cfg inp outp s = (Inl e, s1) \<longrightarrow>
               r = \<lparr>success = False, error = Some (str e), input_path = inp,
                    output_path = None, original_size = None, processed_size = None,
                    processing_time = time_time env (ticks s1) - time_time env (ticks s),
                    file_size_before = None, file_size_after = None,
                    preprocessing_applied = None, quality_metrics = None,
                    timestamp = None\<rparr>)
         \<and> (\<forall>r0 s1. try_block env cfg inp outp s = (Inr r0, s1) \<longrightarrow>
               r = r0 \<and> s' = s1 \<and> success r \<and> error r = None)"
    if n: "interrupt env = None" "handler_error env = None"
  proof (cases "try_block env cfg inp outp s")
    case (Pair x s1)
    show ?thesis
    proof (cases x)
      case (Inl e)
      with Pair n show ?thesis
        by (simp add: process_image_call_def on_exception_eq)
    next
      case (Inr r0)
      with Pair have "try_process env cfg inp outp (time_time env (ticks s))
          (s\<lparr>ticks := Suc (ticks s)\<rparr>) = (Inr r0, s1)"
        by (simp add: try_block_def)
      from try_process_InrD[OF this] Pair Inr n show ?thesis
        by (simp add: process_image_call_def)
    qed
  qed
  have v: "try_block env cfg inp outp s = (Inl e, s\<lparr>ticks := Suc (ticks s)\<rparr>)"
    if "validate_input (files s) inp = Inl e" for e
    using that by (simp add: try_block_def try_process_def)
  have i: "process_image_call env cfg inp outp s = Propagates (Uncaught b)"
    if "interrupt env = Some b" for b
    using that by (simp add: process_image_call_def)
  have h: "process_image_call env cfg inp outp s = Propagates (FromHandler e')"
    if "interrupt env = None" "handler_error env = Some e'"
      "try_block env cfg inp outp s = (Inl e, s1)" for e' e s1
    using that by (simp add: process_image_call_def)
  show ?thesis
    using ret v decode_failure[of s inp env _ cfg outp] pipeline_failure[of s inp env _ cfg _ outp]
      save_failure[of s inp env _ cfg _ outp] scorer_failure[of s inp env _ cfg _ outp] i h
    by blast
qed

lemma sample_gif_is_refused:
  "try_block sample_env sample_config ''field/scan.gif'' ''out/scan.jpg'' sample_state
   = (Inl (Exn ValueError ''Unsupported image format: .gif''), sample_state\<lparr>ticks := 1\<rparr>)"
  by (simp add: try_block_def sample_defs)

theorem process_image_catches_exceptions_witness:
  "interrupt sample_env = None \<and> handler_error sample_env = None
   \<and> try_block sample_env sample_config ''field/scan.gif'' ''out/scan.jpg'' sample_state
     = (Inl (Exn ValueError ''Unsupported image format: .gif''), sample_state\<lparr>ticks := 1\<rparr>)
   \<and> (\<exists>s'. process_image_call sample_env sample_config ''field/scan.gif'' ''out/scan.jpg''
          sample_state
        = Returns \<lparr>success = False, error = Some ''Unsupported image format: .gif'',
             input_path = ''field/scan.gif'', output_path = None,
             original_size = None, processed_size = None, processing_time = 1,
             file_size_before = None, file_size_after = None, preprocessing_applied = None,
             quality_metrics = None, timestamp = None\<rparr> s')"
proof -
  have n: "interrupt sample_env = None" "handler_error sample_env = None"
    by (simp_all add: sample_env_def)
  note t = process_image_catches_exceptions[of sample_env sample_config "''field/scan.gif''"
      "''out/scan.jpg''" sample_state, THEN conjunct1, rule_format, OF conjI, OF n]
  then obtain r s' where
    c: "process_image_call sample_env sample_config ''field/scan.gif'' ''out/scan.jpg''
          sample_state = Returns r s'"
    and f: "\<forall>e s1. try_block sample_env sample_config ''field/scan.gif'' ''out/scan.jpg''
          sample_state = (Inl e, s1) \<longrightarrow>
          r = \<lparr>success = False, error = Some (str e), input_path = ''field/scan.gif'',
               output_path = None, original_size = None, processed_size = None,
               processing_time = time_time sample_env (ticks s1)
                 - time_time sample_env (ticks sample_state),
               file_size_before = None, file_size_after = None,
               preprocessing_applied = None, quality_metrics = None, timestamp = None\<rparr>"
    by blast
  from f[rule_format, OF sample_gif_is_refused] c n sample_gif_is_refused show ?thesis
    by (simp add: sample_env_def sample_state_def)
qed

text \<open>
  The claim as stated fails: \<^verbatim>\<open>except Exception\<close> does not catch a
  \<^verbatim>\<open>KeyboardInterrupt\<close>, which leaves the entry point, and an exception raised while the
  handler formats the exception caught leaves it too; neither call returns a record.
\<close>

theorem interrupt_propagates_counterexample:
  "process_image_call interrupted_env sample_config ''field/leaf.JPG'' ''out/leaf.jpg''
     sample_state = Propagates (Uncaught KeyboardInterrupt)
   \<and> (\<nexists>r s'. process_image_call interrupted_env sample_config ''field/leaf.JPG''
          ''out/leaf.jpg'' sample_state = Returns r s')
   \<and> try_block unprintable_env sample_config ''field/scan.gif'' ''out/scan.jpg'' sample_state
     = (Inl (Exn ValueError ''Unsupported image format: .gif''), sample_state\<lparr>ticks := 1\<rparr>)
   \<and> process_image_call unprintable_env sample_config ''field/scan.gif'' ''out/scan.jpg''
        sample_state
     = Propagates (FromHandler (Exn ValueError ''__str__ returned non-string''))
   \<and> (\<nexists>r s'. process_image_call unprintable_env sample_config ''field/scan.gif''
          ''out/scan.jpg'' sample_state = Returns r s')"
proof -
  have a: "process_image_call interrupted_env sample_config ''field/leaf.JPG'' ''out/leaf.jpg''
     sample_state = Propagates (Uncaught KeyboardInterrupt)"
    by (simp add: process_image_call_def interrupted_env_def)
  have b: "try_block unprintable_env sample_config ''field/scan.gif'' ''out/scan.jpg''
      sample_state
     = (Inl (Exn ValueError ''Unsupported image format: .gif''), sample_state\<lparr>ticks := 1\<rparr>)"
    by (simp add: try_block_def unprintable_env_def sample_defs)
  have i: "interrupt unprintable_env = None"
    "handler_error unprintable_env = Some (Exn ValueError ''__str__ returned non-string'')"
    by (simp_all add: unprintable_env_def sample_env_def)
  have c: "process_image_call unprintable_env sample_config ''field/scan.gif'' ''out/scan.jpg''
        sample_state
     = Propagates (FromHandler (Exn ValueError ''__str__ returned non-string''))"
    by (simp add: process_image_call_def b i)
  show ?thesis using a b c by simp
qed

subsection \<open>The geometric normalizer\<close>

lemma pil_resize_size: "pil_resize env img sz = Inr out \<Longrightarrow> image_size out = sz"
  by (auto simp: pil_resize_def image_size_def split: if_splits)

lemma pil_crop_size:
  "pil_crop img (l, u, r, b) = Inr out \<Longrightarrow> image_size out = (r - l, b - u)"
  by (auto simp: pil_crop_def image_size_def split: if_splits)

lemma resize_center_crop_size:
  assumes "resize_center_crop env target img new_size = Inr out"
  shows "image_size out = target"
proof -
  obtain tw th nw nh where t: "target = (tw, th)" and n: "new_size = (nw, nh)"
    by (cases target, cases new_size) auto
  from assms obtain resized where r: "pil_resize env img (nw, nh) = Inr resized"
    by (auto simp: resize_center_crop_def t n split: sum.splits)
  show ?thesis
  proof (cases "nw \<noteq> tw \<or> nh \<noteq> th")
    case True
    with assms r have "pil_crop resized ((nw - tw) div 2, (nh - th) div 2,
        (nw - tw) div 2 + tw, (nh - th) div 2 + th) = Inr out"
      by (simp add: resize_center_crop_def t n Let_def)
    from pil_crop_size[OF this] show ?thesis by (simp add: t)
  next
    case False
    with assms r have "out = resized" by (simp add: resize_center_crop_def t n)
    with pil_resize_size[OF r] False show ?thesis by (simp add: t)
  qed
qed

lemma resize_center_crop_total:
  assumes "1 \<le> fst new_size" "1 \<le> snd new_size" "0 \<le> fst target" "0 \<le> snd target"
  shows "\<exists>out. resize_center_crop env target img new_size = Inr out"
proof -
  obtain tw th nw nh where t: "target = (tw, th)" and n: "new_size = (nw, nh)"
    by (cases target, cases new_size) auto
  have "\<exists>resized. pil_resize env img (nw, nh) = Inr resized"
    using assms by (simp add: pil_resize_def n)
  then obtain resized where r: "pil_resize env img (nw, nh) = Inr resized" ..
  show ?thesis using assms r
    by (auto simp: resize_center_crop_def t n Let_def pil_crop_def)
qed

lemma py_int_ge:
  assumes "of_int k \<le> x" "0 \<le> k"
  shows "k \<le> py_int x"
proof -
  from assms have "0 \<le> x" by (metis of_int_0_le_iff order_trans)
  with assms show ?thesis by (simp add: py_int_def le_floor_iff)
qed

lemma scaled_size_positive:
  assumes w: "0 < width img" "width img < 2 ^ 53" and h: "0 < height img" "height img < 2 ^ 53"
    and tw: "0 < tw" "tw < 2 ^ 53" and th: "0 < th" "th < 2 ^ 53"
  shows "\<exists>nw nh. scaled_size (tw, th) img = Inr (nw, nh) \<and> 1 \<le> nw \<and> 1 \<le> nh"
proof -
  let ?w = "of_int (width img) :: rat" and ?h = "of_int (height img) :: rat"
  let ?tw = "of_int tw :: rat" and ?th = "of_int th :: rat"
  define ratio where "ratio = f64 (?w / ?h)"
  define target where "target = f64 (?tw / ?th)"
  have pos: "0 < ?w" "0 < ?h" "0 < ?tw" "0 < ?th" using w h tw th by simp_all
  have one: "1 \<le> ?w" "1 \<le> ?th" "1 \<le> ?tw"
    using w th tw by (simp_all add: int_one_le_iff_zero_less)
  have ftw: "f64 ?tw = ?tw" using tw by (intro f64_of_int) simp
  have fth: "f64 ?th = ?th" using th by (intro f64_of_int) simp
  have "(of_int (height img) :: rat) < of_int (2 ^ 53)" using h(2) by (simp only: of_int_less_iff)
  then have "?h < 2 ^ 53" by simp
  then have "1 / 2 ^ 53 \<le> ?w / ?h" using pos one by (simp add: field_simps)
  then have "pow2 (- 53) \<le> ?w / ?h" by (simp add: pow2_def)
  from f64_mono[OF this] f64_representable[of 1 "- 53"] have "pow2 (- 53) \<le> ratio"
    by (simp add: ratio_def)
  then have rpos: "0 < ratio" using pow2_pos[of "- 53"] by simp
  show ?thesis
  proof (cases "target < ratio")
    case True
    then have "?tw / ?th < ratio" unfolding target_def ratio_def by (rule f64_gt_imp_gt)
    then have "?tw \<le> ?th * ratio" using pos by (simp add: pos_divide_less_eq mult.commute)
    from f64_mono[OF this] have "?tw \<le> f64 (f64 ?th * ratio)" by (simp add: ftw fth)
    then have "tw \<le> py_int (f64 (f64 ?th * ratio))" using tw by (intro py_int_ge) simp_all
    then show ?thesis using True tw th h
      by (simp add: scaled_size_def ratio_def[symmetric] target_def[symmetric])
  next
    case False
    have "?tw / ?th \<le> ?tw" using pos one by (simp add: field_simps)
    from f64_mono[OF this] have "target \<le> ?tw" by (simp add: target_def ftw)
    with False have "ratio \<le> ?tw" by simp
    then have "1 \<le> ?tw / ratio" using rpos by (simp add: pos_le_divide_eq)
    from f64_mono[OF this] have "of_int 1 \<le> f64 (f64 ?tw / ratio)" by (simp add: ftw f64_one)
    then have "1 \<le> py_int (f64 (f64 ?tw / ratio))" by (rule py_int_ge) simp
    then show ?thesis using False tw th h rpos
      by (simp add: scaled_size_def ratio_def[symmetric] target_def[symmetric])
  qed
qed

lemma length_concat_uniform:
  "\<forall>r\<in>set rows. length r = w \<Longrightarrow> length (concat rows) = length rows * w"
  by (induction rows) simp_all

lemma concat_nth_uniform:
  assumes "\<forall>r\<in>set rows. length r = w" "i < length rows" "j < w"
  shows "concat rows ! (i * w + j) = rows ! i ! j"
  using assms
proof (induction rows arbitrary: i)
  case Nil
  then show ?case by simp
next
  case (Cons r rs)
  show ?case
  proof (cases i)
    case 0
    with Cons.prems show ?thesis by (simp add: nth_append)
  next
    case (Suc k)
    with Cons.prems have k: "k < length rs" and l: "length r = w" by simp_all
    have "concat (r # rs) ! (i * w + j) = (r @ concat rs) ! (length r + (k * w + j))"
      by (simp add: Suc l add.assoc)
    also have "\<dots> = concat rs ! (k * w + j)" by (rule nth_append_length_plus)
    also have "\<dots> = rs ! k ! j" using Cons.prems k by (intro Cons.IH) simp_all
    finally show ?thesis by (simp add: Suc)
  qed
qed

lemma pil_crop_pixel_at:
  assumes c: "pil_crop img (l, u, r, b) = Inr out"
    and x: "0 \<le> x" "x < r - l" and y: "0 \<le> y" "y < b - u"
  shows "pixel_at out x y = pixel_at img (l + x) (u + y)"
proof -
  define rows where
    "rows = map (\<lambda>y. map (\<lambda>x. pixel_at img (l + x) (u + y)) [0..r - l - 1]) [0..b - u - 1]"
  define w where "w = nat (r - l)"
  from c x y have out: "out = \<lparr>width = r - l, height = b - u, pixels = concat rows\<rparr>"
    by (auto simp: pil_crop_def rows_def split: if_splits)
  have uni: "\<forall>row\<in>set rows. length row = w" by (auto simp: rows_def w_def)
  have len: "length rows = nat (b - u)" by (simp add: rows_def)
  have i: "nat y < length rows" using y by (simp add: len)
  have j: "nat x < w" using x by (simp add: w_def)
  have idx: "nat (y * (r - l) + x) = nat y * w + nat x"
    using x y by (simp add: w_def nat_add_distrib nat_mult_distrib)
  have "nat y * w + nat x < length rows * w"
  proof -
    have "nat y * w + nat x < nat y * w + w" using j by simp
    also have "\<dots> = Suc (nat y) * w" by simp
    also have "\<dots> \<le> length rows * w" using i by (intro mult_le_mono1) simp
    finally show ?thesis .
  qed
  then have inb: "nat (y * (r - l) + x) < length (concat rows)"
    by (simp add: length_concat_uniform[OF uni] idx)
  have "concat rows ! (nat y * w + nat x) = rows ! nat y ! nat x"
    by (rule concat_nth_uniform[OF uni i j])
  also have "\<dots> = pixel_at img (l + x) (u + y)"
    using x y by (simp add: rows_def)
  finally show ?thesis using x y inb by (simp add: pixel_at_def out idx)
qed

lemma pil_crop_length:
  assumes "pil_crop img (l, u, r, b) = Inr out"
  shows "length (pixels out) = nat ((r - l) * (b - u))"
proof -
  from assms have le: "l \<le> r" "u \<le> b"
    by (auto simp: pil_crop_def split: if_splits)
  from assms have "pixels out =
      concat (map (\<lambda>y. map (\<lambda>x. pixel_at img (l + x) (u + y)) [0..r - l - 1]) [0..b - u - 1])"
    by (auto simp: pil_crop_def split: if_splits)
  then have "length (pixels out) = nat (b - u) * nat (r - l)"
    by (simp add: length_concat_uniform[where w = "nat (r - l)"])
  then show ?thesis using le by (simp add: nat_mult_distrib mult.commute)
qed

text \<open>
  The buffer returned is the window of the target size, centered in the resized buffer
  (black where the window leaves it): the resized buffer itself when the scaled size is
  the target size, and a fresh buffer of \<open>target_width * target_height\<close> pixels otherwise.
\<close>

lemma resize_center_crop_window:
  assumes "resize_center_crop env (tw, th) img (nw, nh) = Inr out"
  shows "\<exists>resized. pil_resize env img (nw, nh) = Inr resized
     \<and> ((nw, nh) = (tw, th) \<longrightarrow> out = resized)
     \<and> ((nw, nh) \<noteq> (tw, th) \<longrightarrow> length (pixels out) = nat (tw * th))
     \<and> (\<forall>x y. 0 \<le> x \<and> x < tw \<and> 0 \<le> y \<and> y < th \<longrightarrow>
           pixel_at out x y = pixel_at resized (x + (nw - tw) div 2) (y + (nh - th) div 2))"
proof -
  from assms obtain resized where r: "pil_resize env img (nw, nh) = Inr resized"
    by (auto simp: resize_center_crop_def split: sum.splits)
  show ?thesis
  proof (cases "nw \<noteq> tw \<or> nh \<noteq> th")
    case True
    with assms r have c: "pil_crop resized ((nw - tw) div 2, (nh - th) div 2,
        (nw - tw) div 2 + tw, (nh - th) div 2 + th) = Inr out"
      by (simp add: resize_center_crop_def Let_def)
    have "pixel_at out x y = pixel_at resized (x + (nw - tw) div 2) (y + (nh - th) div 2)"
      if "0 \<le> x" "x < tw" "0 \<le> y" "y < th" for x y
      using pil_crop_pixel_at[OF c, of x y] that by (simp add: add.commute)
    moreover have "length (pixels out) = nat (tw * th)"
      using pil_crop_length[OF c] by simp
    ultimately show ?thesis using r True by auto
  next
    case False
    with assms r have "out = resized" by (simp add: resize_center_crop_def)
    with r False show ?thesis by auto
  qed
qed

lemma smart_resize_size:
  "smart_resize env cfg img = Inr out \<Longrightarrow> image_size out = target_size cfg"
  by (auto simp: smart_resize_def split: sum.splits dest: resize_center_crop_size)

lemma smart_resize_window:
  assumes "smart_resize env cfg img = Inr out"
  shows "\<exists>new_size resized.
       scaled_size (target_size cfg) img = Inr new_size
     \<and> pil_resize env img new_size = Inr resized
     \<and> (new_size = target_size cfg \<longrightarrow> out = resized)
     \<and> (new_size \<noteq> target_size cfg \<longrightarrow>
          length (pixels out) = nat (fst (target_size cfg) * snd (target_size cfg)))
     \<and> (\<forall>x y. 0 \<le> x \<and> x < fst (target_size cfg) \<and> 0 \<le> y \<and> y < snd (target_size cfg) \<longrightarrow>
           pixel_at out x y =
             pixel_at resized (x + (fst new_size - fst (target_size cfg)) div 2)
                              (y + (snd new_size - snd (target_size cfg)) div 2))"
proof -
  obtain tw th where t: "target_size cfg = (tw, th)" by (cases "target_size cfg")
  from assms obtain nw nh where n: "scaled_size (tw, th) img = Inr (nw, nh)"
    and c: "resize_center_crop env (tw, th) img (nw, nh) = Inr out"
    by (auto simp: smart_resize_def t split: sum.splits)
  from resize_center_crop_window[OF c] n show ?thesis
    unfolding t by (intro exI[of _ "(nw, nh)"]) (simp only: fst_conv snd_conv simp_thms)
qed

lemma smart_resize_total:
  assumes "0 < width img" "width img < 2 ^ 53" "0 < height img" "height img < 2 ^ 53"
    and "0 < fst (target_size cfg)" "fst (target_size cfg) < 2 ^ 53"
    and "0 < snd (target_size cfg)" "snd (target_size cfg) < 2 ^ 53"
  shows "\<exists>out. smart_resize env cfg img = Inr out"
proof -
  obtain tw th where t: "target_size cfg = (tw, th)" by (cases "target_size cfg")
  with assms scaled_size_positive[of img tw th] obtain nw nh where
    s: "scaled_size (tw, th) img = Inr (nw, nh)" "1 \<le> nw" "1 \<le> nh" by auto
  with assms t resize_center_crop_total[of "(nw, nh)" "(tw, th)" env img]
  show ?thesis by (auto simp: smart_resize_def)
qed

lemma correct_colors_size: "image_size (correct_colors fm img) = image_size img"
  by (simp add: correct_colors_def image_size_def)

lemma pipeline_size:
  assumes "preprocess_pipeline env cfg img = Inr out"
    and "keeps_size (normalize_lighting env)" "keeps_size (reduce_noise env)"
    and "\<forall>f. keeps_size (\<lambda>i. enhance_contrast env i f)" "\<forall>f. keeps_size (\<lambda>i. enhance_sharpness env i f)"
  shows "image_size out = target_size cfg"
  using assms unfolding preprocess_pipeline_def enhance_quality_def keeps_size_def Let_def
  by (auto split: sum.splits if_splits dest!: smart_resize_size simp: correct_colors_size) 

lemma try_process_processed_size:
  assumes "try_process env cfg inp outp t0 s = (Inr r, s')"
  shows "\<exists>img processed. preprocess_pipeline env cfg img = Inr processed
           \<and> processed_size r = Some (image_size processed)"
  using assms unfolding try_process_def
  by (fastforce simp add: Let_def now_def load_image_def save_image_def
      split: sum.splits prod.splits)
text \<open>
  Claim C1. Whatever buffer the geometric normalizer returns has exactly the configured
  target width and height, whatever the aspect ratio of the input and whatever the
  binary64 computation of the scaled size truncates to; and the buffer is what the size
  says: its pixel at \<open>(x, y)\<close> is the pixel of the resized buffer at the same place of the
  centered window (black outside the resized buffer), it is the resized buffer itself
  when the scaled size is the target size, and it holds \<open>target_width * target_height\<close>
  pixels otherwise. For an input of positive dimensions and a positive target size
  (all below \<open>2 ^ 53\<close>, where binary64 holds every integer) the normalizer does return a
  buffer. When the later stages keep the size of their buffer, a successful invocation
  reports the target size as the processed size.
\<close>

theorem smart_resize_exact_target_size:
  "(\<forall>out. smart_resize env cfg img = Inr out \<longrightarrow>
       width out = fst (target_size cfg) \<and> height out = snd (target_size cfg)
       \<and> (\<exists>new_size resized.
             scaled_size (target_size cfg) img = Inr new_size
           \<and> pil_resize env img new_size = Inr resized
           \<and> (new_size = target_size cfg \<longrightarrow> out = resized)
           \<and> (new_size \<noteq> target_size cfg \<longrightarrow>
                length (pixels out) = nat (fst (target_size cfg) * snd (target_size cfg)))
           \<and> (\<forall>x y. 0 \<le> x \<and> x < fst (target_size cfg)
                    \<and> 0 \<le> y \<and> y < snd (target_size cfg) \<longrightarrow>
                 pixel_at out x y =
                   pixel_at resized (x + (fst new_size - fst (target_size cfg)) div 2)
                                    (y + (snd new_size - snd (target_size cfg)) div 2))))
   \<and> (0 < width img \<and> width img < 2 ^ 53 \<and> 0 < height img \<and> height img < 2 ^ 53
        \<and> 0 < fst (target_size cfg) \<and> fst (target_size cfg) < 2 ^ 53
        \<and> 0 < snd (target_size cfg) \<and> snd (target_size cfg) < 2 ^ 53 \<longrightarrow>
       (\<exists>out. smart_resize env cfg img = Inr out
          \<and> width out = fst (target_size cfg) \<and> height out = snd (target_size cfg)))
   \<and> (keeps_size (normalize_lighting env) \<and> keeps_size (reduce_noise env)
        \<and> (\<forall>f. keeps_size (\<lambda>i. enhance_contrast env i f))
        \<and> (\<forall>f. keeps_size (\<lambda>i. enhance_sharpness env i f))
        \<and> success (fst (process_image env cfg inp outp s)) \<longrightarrow>
       processed_size (fst (process_image env cfg inp outp s)) = Some (target_size cfg))"
proof -
  have a: "width out = fst (target_size cfg) \<and> height out = snd (target_size cfg)"
    if "smart_resize env cfg img = Inr out" for out
    using smart_resize_size[OF that, unfolded image_size_def] by (metis fst_conv snd_conv)
  have b: "\<exists>out. smart_resize env cfg img = Inr out
          \<and> width out = fst (target_size cfg) \<and> height out = snd (target_size cfg)"
    if "0 < width img" "width img < 2 ^ 53" "0 < height img" "height img < 2 ^ 53"
      "0 < fst (target_size cfg)" "fst (target_size cfg) < 2 ^ 53"
      "0 < snd (target_size cfg)" "snd (target_size cfg) < 2 ^ 53"
    using smart_resize_total[OF that, of env] a by blast
  have c: "processed_size (fst (process_image env cfg inp outp s)) = Some (target_size cfg)"
    if k: "keeps_size (normalize_lighting env)" "keeps_size (reduce_noise env)"
      "\<forall>f. keeps_size (\<lambda>i. enhance_contrast env i f)"
      "\<forall>f. keeps_size (\<lambda>i. enhance_sharpness env i f)"
      and suc: "success (fst (process_image env cfg inp outp s))"
  proof (cases rule: process_image_cases[of env cfg inp outp s])
    case (ok r s')
    from try_process_processed_size[OF ok(1)] obtain im processed where
      "preprocess_pipeline env cfg im = Inr processed"
      "processed_size r = Some (image_size processed)" by blast
    with pipeline_size[OF _ k] ok(2) show ?thesis by simp
  next
    case (fail e s1)
    then show ?thesis using suc by (simp add: on_exception_eq)
  qed
  show ?thesis using a b c smart_resize_window[of env cfg img] by blast
qed

text \<open>
  A 9 x 7 buffer under a 9 x 7 target: in binary64 \<open>9 / (9 / 7)\<close> is just below 7, so the
  scaled size is 9 x 6, and the centered window of height 7 starts one row above the
  resized buffer: the first row of the result is black.
\<close>

lemma nine_by_seven_scaled: "scaled_size (9, 7) nine_by_seven = Inr (9, 6)"
  by code_simp

lemma sample_env_keeps_size:
  "keeps_size (normalize_lighting sample_env)" "keeps_size (reduce_noise sample_env)"
  "\<forall>f. keeps_size (\<lambda>i. enhance_contrast sample_env i f)"
  "\<forall>f. keeps_size (\<lambda>i. enhance_sharpness sample_env i f)"
  by (simp_all add: keeps_size_def sample_env_def)

theorem smart_resize_exact_target_size_witness:
  "scaled_size (9, 7) nine_by_seven = Inr (9, 6)
   \<and> (\<exists>out. smart_resize sample_env nine_by_seven_config nine_by_seven = Inr out
          \<and> width out = 9 \<and> height out = 7 \<and> length (pixels out) = 63
          \<and> pixel_at out 0 0 = (0, 0, 0) \<and> pixel_at out 0 1 = (10, 20, 30))
   \<and> processed_size (fst (process_image sample_env sample_config ''field/leaf.JPG''
        ''out/leaf.jpg'' sample_state)) = Some (1, 1)"
proof -
  note t = smart_resize_exact_target_size[of sample_env nine_by_seven_config nine_by_seven
      "''field/leaf.JPG''" "''out/leaf.jpg''" sample_state]
  have ts: "target_size nine_by_seven_config = (9, 7)"
    by (simp add: nine_by_seven_config_def)
  have dims: "width nine_by_seven = 9" "height nine_by_seven = 7"
    by (simp_all add: nine_by_seven_def)
  from t obtain out where o: "smart_resize sample_env nine_by_seven_config nine_by_seven = Inr out"
    by (auto simp add: ts dims)
  with t obtain resized where
    r: "pil_resize sample_env nine_by_seven (9, 6) = Inr resized"
    and l: "length (pixels out) = 63"
    and p: "\<And>x y. 0 \<le> x \<and> x < 9 \<and> 0 \<le> y \<and> y < 7 \<Longrightarrow>
              pixel_at out x y = pixel_at resized (x + (9 - 9) div 2) (y + (6 - 7) div 2)"
    by (auto simp add: ts nine_by_seven_scaled)
  from r have res: "resized = \<lparr>width = 9, height = 6, pixels = replicate 54 (10, 20, 30)\<rparr>"
    by (simp add: pil_resize_def image_size_def sample_env_def nine_by_seven_def pixel_at_def)
  have "pixel_at out 0 0 = (0, 0, 0)" using p[of 0 0] by (simp add: res pixel_at_def)
  moreover have "pixel_at out 0 1 = (10, 20, 30)" using p[of 0 1] by (simp add: res pixel_at_def)
  moreover have "width out = 9 \<and> height out = 7" using t o by (simp add: ts)
  moreover have "processed_size (fst (process_image sample_env sample_config ''field/leaf.JPG''
        ''out/leaf.jpg'' sample_state)) = Some (1, 1)"
    using smart_resize_exact_target_size[of sample_env sample_config sample_image
      "''field/leaf.JPG''" "''out/leaf.jpg''" sample_state]
      sample_run_succeeds sample_env_keeps_size
    by (simp add: sample_config_def)
  ultimately show ?thesis using o l nine_by_seven_scaled by simp
qed

subsection \<open>The subject locator\<close>

lemma mask_all_zero:
  "list_all (\<lambda>p. \<not> in_range p lo hi) (pixels hsv) \<Longrightarrow>
     list_all (\<lambda>b. b = 0) (pixels (inRange hsv lo hi))"
  by (simp add: inRange_def list_all_iff)

text \<open>
  Claim C5. When the HSV conversion of the input has no pixel in the green band (hue 25
  to 85, saturation and value 40 to 255), and the contour finder returns no contour for
  an all-zero mask as OpenCV does, the auto-crop stage returns its input unchanged; it
  also returns its input unchanged whenever a step of the locator raises; and as a
  pipeline stage it never fails.
\<close>

theorem auto_crop_falls_back:
  "((\<forall>hsv. cvtColor_HSV env img = Inr hsv \<longrightarrow>
        list_all (\<lambda>p. \<not> in_range p lower_green upper_green) (pixels hsv))
     \<and> (\<forall>mask cs. list_all (\<lambda>b. b = 0) (pixels mask) \<longrightarrow> findContours env mask = Inr cs
          \<longrightarrow> cs = [])
     \<longrightarrow> auto_crop_plant env img = img)
   \<and> ((\<exists>e. auto_crop_try env img = Inl e) \<longrightarrow> auto_crop_plant env img = img)
   \<and> run_stage env cfg AutoCrop img = Inr (auto_crop_plant env img)"
proof -
  have a: "auto_crop_plant env img = img"
    if g: "\<forall>hsv. cvtColor_HSV env img = Inr hsv \<longrightarrow>
        list_all (\<lambda>p. \<not> in_range p lower_green upper_green) (pixels hsv)"
      and c: "\<forall>mask cs. list_all (\<lambda>b. b = 0) (pixels mask) \<longrightarrow> findContours env mask = Inr cs
          \<longrightarrow> cs = []"
  proof (cases "cvtColor_HSV env img")
    case (Inl e)
    then show ?thesis by (simp add: auto_crop_plant_def auto_crop_try_def)
  next
    case (Inr hsv)
    with g have "list_all (\<lambda>b. b = 0) (pixels (inRange hsv lower_green upper_green))"
      by (simp add: mask_all_zero)
    with c have "findContours env (inRange hsv lower_green upper_green) = Inr cs \<Longrightarrow> cs = []" for cs
      by blast
    with Inr show ?thesis
      by (cases "findContours env (inRange hsv lower_green upper_green)")
         (auto simp add: auto_crop_plant_def auto_crop_try_def Let_def)
  qed
  have b: "auto_crop_plant env img = img" if "\<exists>e. auto_crop_try env img = Inl e"
    using that by (auto simp add: auto_crop_plant_def)
  show ?thesis using a b by simp
qed

theorem auto_crop_falls_back_witness:
  "cvtColor_HSV sample_env sample_image
     = Inr \<lparr>width = 2, height = 1, pixels = [(0, 101, 100), (0, 30, 200)]\<rparr>
   \<and> auto_crop_plant sample_env sample_image = sample_image
   \<and> auto_crop_try locator_fails_env sample_image = Inl (Exn Cv2Error ''cvtColor failed'')
   \<and> auto_crop_plant locator_fails_env sample_image = sample_image"
proof -
  have h: "cvtColor_HSV sample_env sample_image
     = Inr \<lparr>width = 2, height = 1, pixels = [(0, 101, 100), (0, 30, 200)]\<rparr>"
    by (simp add: sample_env_def sample_image_def red_def green_def)
  have g: "\<forall>hsv. cvtColor_HSV sample_env sample_image = Inr hsv \<longrightarrow>
        list_all (\<lambda>p. \<not> in_range p lower_green upper_green) (pixels hsv)"
    by (simp add: h in_range_def lower_green_def red_def)
  have c: "\<forall>mask cs. list_all (\<lambda>b. b = 0) (pixels mask) \<longrightarrow>
        findContours sample_env mask = Inr cs \<longrightarrow> cs = []"
    by (simp add: sample_env_def)
  have f: "auto_crop_try locator_fails_env sample_image = Inl (Exn Cv2Error ''cvtColor failed'')"
    by (simp add: auto_crop_try_def locator_fails_env_def sample_env_def)
  show ?thesis
    using auto_crop_falls_back[of sample_env sample_image]
      auto_crop_falls_back[of locator_fails_env sample_image] h g c f
    by blast
qed

subsection \<open>Binary32 rounding and the green channel\<close>

lemma f32_pos:
  assumes "0 < x" "pow2 e \<le> x" "x < pow2 (e + 1)" "- 126 \<le> e"
  shows "f32 x = of_int (round_half_even (x / pow2 (e - 23))) * pow2 (e - 23)"
  using assms floorlog2_unique[OF assms(1-3)] by (simp add: f32_def Let_def max_def)

lemma f32_error:
  assumes "0 < x" "pow2 e \<le> x" "x < pow2 (e + 1)" "- 126 \<le> e"
  shows "\<bar>f32 x - x\<bar> \<le> pow2 (e - 24)"
proof -
  let ?u = "pow2 (e - 23)"
  have u: "0 < ?u" by (rule pow2_pos)
  have h: "pow2 (e - 24) = ?u / 2"
    using pow2_add[of "e - 23" "- 1"] by (simp add: pow2_def)
  have "f32 x - x = (of_int (round_half_even (x / ?u)) - x / ?u) * ?u"
    using u by (simp add: f32_pos[OF assms] field_simps)
  then have "\<bar>f32 x - x\<bar> = \<bar>of_int (round_half_even (x / ?u)) - x / ?u\<bar> * ?u"
    using u by (simp add: abs_mult)
  also have "\<dots> \<le> 1 / 2 * ?u"
    using round_half_even_error[of "x / ?u"] u by (intro mult_right_mono) simp_all
  finally show ?thesis by (simp add: h)
qed

lemma f32_eqI:
  assumes "0 < y" "pow2 E \<le> y" "y < pow2 (E + 1)" "- 126 \<le> E"
    and c: "\<bar>y - of_int k * pow2 (E - 23)\<bar> < pow2 (E - 24)"
  shows "f32 y = of_int k * pow2 (E - 23)"
proof -
  let ?u = "pow2 (E - 23)"
  have u: "0 < ?u" by (rule pow2_pos)
  have h: "pow2 (E - 24) = ?u / 2"
    using pow2_add[of "E - 23" "- 1"] by (simp add: pow2_def)
  have "y / ?u - of_int k = (y - of_int k * ?u) / ?u" using u by (simp add: field_simps)
  then have "\<bar>y / ?u - of_int k\<bar> = \<bar>y - of_int k * ?u\<bar> / ?u" using u by simp
  also have "\<dots> < (?u / 2) / ?u" using c u unfolding h by (intro divide_strict_right_mono) simp_all
  finally have "\<bar>y / ?u - of_int k\<bar> < 1 / 2" using u by simp
  then have "round_half_even (y / ?u) = k" by (rule round_half_even_unique)
  then show ?thesis by (simp add: f32_pos[OF assms(1-4)])
qed

lemma roundtrip_band:
  fixes n :: nat and E :: int
  assumes E: "0 \<le> E" "E \<le> 7"
    and lo: "pow2 E \<le> of_nat n" and hi: "of_nat n < pow2 (E + 1)" and n: "n < 255"
  shows "f32 (f32 (of_nat n / 255) * 255) = of_nat n"
proof -
  define P where "P = pow2 E"
  define p where "p = (2::int) ^ nat E"
  have Pp: "P = of_int p" using E by (simp add: P_def p_def pow2_def)
  have "p \<le> 2 ^ 7" unfolding p_def using E by (intro power_increasing) simp_all
  moreover have "1 \<le> p" unfolding p_def by simp
  ultimately have P1: "1 \<le> P" "P \<le> 128" by (simp_all add: Pp)
  have sh: "pow2 (E + c) = P * pow2 c" for c by (simp add: P_def pow2_add)
  have s8: "pow2 (E - 8) = P / 256" using sh[of "- 8"] by (simp add: pow2_def)
  have s7: "pow2 (E - 7) = P / 128" using sh[of "- 7"] by (simp add: pow2_def)
  have s32: "pow2 (E - 32) = P / 4294967296" using sh[of "- 32"] by (simp add: pow2_def)
  have s31: "pow2 (E - 31) = P / 2147483648" using sh[of "- 31"] by (simp add: pow2_def)
  have s24: "pow2 (E - 24) = P / 16777216" using sh[of "- 24"] by (simp add: pow2_def)
  have s1: "pow2 (E + 1) = P * 2" using sh[of 1] by (simp add: pow2_def)
  define N where "N = (of_nat n :: rat)"
  have Nn: "N = of_int (int n)" by (simp add: N_def)
  have "(of_int (int n) :: rat) < of_int (2 * p)" using hi by (simp add: s1 Pp)
  then have np: "int n < 2 * p" by (simp only: of_int_less_iff)
  have "(of_int p :: rat) \<le> of_int (int n)" using lo by (simp add: P_def[symmetric] Pp)
  then have pn: "p \<le> int n" by (simp only: of_int_le_iff)
  have N1: "P \<le> N" using pn by (simp add: Nn Pp)
  have "int n \<le> 2 * p - 1" using np by simp
  then have "(of_int (int n) :: rat) \<le> of_int (2 * p - 1)" by (simp only: of_int_le_iff)
  then have N2: "N \<le> 2 * P - 1" by (simp add: Nn Pp)
  have N3: "N \<le> 254" using n by (simp add: N_def)
  let ?x = "N / 255"
  have xpos: "0 < ?x" using N1 P1 by simp
  have xl: "pow2 (E - 8) \<le> ?x" using N1 P1 by (simp add: s8)
  have xh: "?x < pow2 (E - 8 + 1)"
  proof -
    have "?x < P / 128" using N2 N3 P1 by simp
    then show ?thesis by (simp add: s7)
  qed
  have e8: "- 126 \<le> E - 8" using E by simp
  define a where "a = f32 ?x"
  have ae: "\<bar>a - ?x\<bar> \<le> P / 4294967296"
    using f32_error[OF xpos xl xh e8] by (simp add: a_def s32)
  define y where "y = a * 255"
  have "y - N = (a - ?x) * 255" by (simp add: y_def)
  then have "\<bar>y - N\<bar> = \<bar>(a - ?x) * 255\<bar>" by (simp only:)
  also have "\<dots> = \<bar>a - ?x\<bar> * \<bar>255\<bar>" by (rule abs_mult)
  finally have "\<bar>y - N\<bar> = \<bar>a - ?x\<bar> * 255" by simp
  with ae have ye: "\<bar>y - N\<bar> \<le> P * 255 / 4294967296" by simp
  have yb: "N - P * 255 / 4294967296 \<le> y" "y \<le> N + P * 255 / 4294967296"
    using ye by linarith+
  have "\<bar>y - N\<bar> < P / 16777216" using ye P1 by linarith
  then have ylt: "\<bar>y - N\<bar> < pow2 (E - 24)" by (simp only: s24)
  have "y < P * 2" using yb N2 P1 by linarith
  then have yhi: "y < pow2 (E + 1)" by (simp only: s1)
  have "P \<le> y"
  proof (cases "int n = p")
    case True
    then have NP: "N = P" by (simp add: Nn Pp)
    have "\<bar>P / 255 - 8421505 * (P / 2147483648)\<bar> < P / 4294967296"
      using P1 by linarith
    then have "\<bar>?x - of_int 8421505 * pow2 (E - 8 - 23)\<bar> < pow2 (E - 8 - 24)"
      by (simp add: NP s31 s32)
    from f32_eqI[OF xpos xl xh e8 this] have "a = 8421505 * (P / 2147483648)"
      by (simp add: a_def s31)
    then show ?thesis using P1 by (simp add: y_def)
  next
    case False
    with pn have "p + 1 \<le> int n" by simp
    then have "(of_int (p + 1) :: rat) \<le> of_int (int n)" by (simp only: of_int_le_iff)
    then have "P + 1 \<le> N" by (simp add: Nn Pp)
    with yb P1 show ?thesis by linarith
  qed
  then have ylo: "pow2 E \<le> y" by (simp only: P_def)
  have ypos: "0 < y" using ylo pow2_pos[of E] by simp
  have e126: "- 126 \<le> E" using E by simp
  define k where "k = int n * 2 ^ nat (23 - E)"
  have rep: "of_int k * pow2 (E - 23) = N"
    using E by (simp add: pow2_def N_def k_def)
  have "\<bar>y - of_int k * pow2 (E - 23)\<bar> < pow2 (E - 24)"
    using ylt by (simp only: rep)
  from f32_eqI[OF ypos ylo yhi e126 this] have "f32 y = N" by (simp only: rep)
  then show ?thesis by (simp only: y_def a_def N_def)
qed

lemma f32_one: "f32 1 = 1"
  using f32_eqI[of 1 0 8388608] by (simp add: pow2_def)

lemma f32_255: "f32 255 = 255"
  using f32_eqI[of 255 7 16711680] by (simp add: pow2_def)

lemma f32_roundtrip:
  assumes "n < 256"
  shows "f32 (f32 (of_nat n / 255) * 255) = of_nat n"
proof -
  consider "n = 0" | "n = 255" | "0 < n" "n < 255" using assms by linarith
  then show ?thesis
  proof cases
    case 1
    then show ?thesis by (simp add: f32_def)
  next
    case 2
    then show ?thesis by (simp add: f32_one f32_255)
  next
    case 3
    define E where "E = bitlen (int n) - 1"
    from 3 have pos: "0 < int n" by simp
    from of_int_bitlen_bounds[OF pos]
    have b: "pow2 E \<le> of_nat n" "of_nat n < pow2 (E + 1)" by (simp_all add: E_def)
    have "bitlen (int n) \<le> 8" using 3 by (simp add: bitlen_le_iff_power)
    moreover have "0 < bitlen (int n)" using pos
      by (metis bitlen_eq_zero_iff bitlen_nonneg leD order_le_less)
    ultimately have "0 \<le> E" "E \<le> 7" by (simp_all add: E_def)
    then show ?thesis using b 3 by (intro roundtrip_band)
  qed
qed

lemma requantize_normalize:
  assumes "rnd fm = f32"
  shows "requantize fm (normalize fm g) = g"
proof -
  have "unat g < 256" using unsigned_less[of g, where ?'a = nat] by simp
  from f32_roundtrip[OF this] have "fmul fm (normalize fm g) 255 = of_nat (unat g)"
    by (simp add: fmul_def normalize_def fdiv_def assms del: of_nat_unat)
  moreover have "clip (of_nat (unat g)) 0 255 = (of_nat (unat g) :: rat)"
    using \<open>unat g < 256\<close> by (simp add: clip_def del: of_nat_unat)
  ultimately have "requantize fm (normalize fm g) = word_of_nat (unat g)"
    by (simp add: requantize_def del: of_nat_unat)
  then show ?thesis by simp
qed
text \<open>
  Claim C3. In binary32, whatever the channel means come out as, color correction leaves
  the green value of every pixel unchanged: a byte divided by 255, multiplied by 255,
  clipped and truncated is the byte again, and the green channel is not scaled in
  between. The dimensions of the buffer do not change either.
\<close>

theorem correct_colors_keeps_green:
  assumes "rnd fm = f32"
  shows "map green (pixels (correct_colors fm img)) = map green (pixels img)
     \<and> width (correct_colors fm img) = width img
     \<and> height (correct_colors fm img) = height img"
proof -
  have "map green (pixels (correct_colors fm img))
      = map (\<lambda>p. requantize fm (normalize fm (green p))) (pixels img)"
    by (simp add: correct_colors_def scaled_array_def normalized_array_def Let_def green_def
        comp_def)
  also have "\<dots> = map green (pixels img)"
    by (simp add: requantize_normalize[OF assms])
  finally show ?thesis by (simp add: correct_colors_def)
qed

theorem correct_colors_keeps_green_witness:
  "rnd float32 = f32
   \<and> map green (pixels (correct_colors float32 sample_image)) = [101, 30]"
  using correct_colors_keeps_green[of float32 sample_image]
  by (simp add: float32_def sample_image_def green_def)

subsection \<open>Color correction: the damped factors\<close>








text \<open>
  The damped factor \<open>fl(1 + fl(fl(s - 1) * fl(0.3)))\<close> of a non-negative binary32 factor
  \<open>s\<close> lies between 1 and \<open>s\<close>, and not strictly: the damped factor of the binary32
  number next to 1 is 1.
\<close>

lemma damp_attains_one: "damp float32 (1 + 1 / 2 ^ 23) = 1"
  by code_simp















subsection \<open>Validation\<close>

lemma validation_failure:
  assumes "validate_input (files s) inp = Inl e"
  shows "process_image env cfg inp outp s =
     (\<lparr>success = False, error = Some (str e), input_path = inp, output_path = None,
       original_size = None, processed_size = None,
       processing_time = time_time env (Suc (ticks s)) - time_time env (ticks s),
       file_size_before = None, file_size_after = None, preprocessing_applied = None,
       quality_metrics = None, timestamp = None\<rparr>,
      s\<lparr>statistics := (statistics s)\<lparr>error_count := error_count (statistics s) + 1\<rparr>,
        ticks := Suc (Suc (ticks s))\<rparr>)"
  using assms by (simp add: process_image_try_block try_block_def try_process_def on_exception_eq)

text \<open>
  Claim C6. Validation comes first and a refused input is never handed to the decoder
  (\<open>opened\<close> does not grow) and yields \<open>success = False\<close>: a path that does not exist is
  refused with \<^verbatim>\<open>FileNotFoundError\<close>; an extension outside the allow-list (compared in
  lower case) is refused, with the unsupported-format \<^verbatim>\<open>ValueError\<close> when the path exists;
  a file above 20 MiB is refused, with the size-limit \<^verbatim>\<open>ValueError\<close> when its extension is
  allowed. The three checks run in this order, so the first that fails names the error.
\<close>

theorem validation_precedes_decode:
  "(files s inp = None \<longrightarrow>
      validate_input (files s) inp = Inl (Exn FileNotFoundError (''Input image not found: '' @ inp))
      \<and> \<not> success (fst (process_image env cfg inp outp s))
      \<and> error (fst (process_image env cfg inp outp s)) = Some (''Input image not found: '' @ inp)
      \<and> opened (snd (process_image env cfg inp outp s)) = opened s)
   \<and> (lower (path_suffix inp) \<notin> supported_formats \<longrightarrow>
      \<not> success (fst (process_image env cfg inp outp s))
      \<and> opened (snd (process_image env cfg inp outp s)) = opened s
      \<and> (files s inp \<noteq> None \<longrightarrow>
           validate_input (files s) inp
             = Inl (Exn ValueError (''Unsupported image format: '' @ path_suffix inp))
           \<and> error (fst (process_image env cfg inp outp s))
             = Some (''Unsupported image format: '' @ path_suffix inp)))
   \<and> (\<forall>n. files s inp = Some n \<and> 20 * 1024 * 1024 < n \<longrightarrow>
      \<not> success (fst (process_image env cfg inp outp s))
      \<and> opened (snd (process_image env cfg inp outp s)) = opened s
      \<and> (lower (path_suffix inp) \<in> supported_formats \<longrightarrow>
           validate_input (files s) inp = Inl (Exn ValueError ''Image file too large (max 20MB)'')
           \<and> error (fst (process_image env cfg inp outp s))
             = Some ''Image file too large (max 20MB)''))"
proof -
  have 1: ?thesis if "files s inp = None"
    using that validation_failure[of s inp _ env cfg outp]
    by (simp add: validate_input_def)
  have 2: ?thesis if "files s inp = Some n" "lower (path_suffix inp) \<notin> supported_formats" for n
    using that validation_failure[of s inp _ env cfg outp]
    by (simp add: validate_input_def)
  have 3: ?thesis if "files s inp = Some n" "lower (path_suffix inp) \<in> supported_formats"
      "20 * 1024 * 1024 < n" for n
    using that validation_failure[of s inp _ env cfg outp]
    by (simp add: validate_input_def)
  have 4: ?thesis if "files s inp = Some n" "lower (path_suffix inp) \<in> supported_formats"
      "\<not> 20 * 1024 * 1024 < n" for n
    using that by simp
  show ?thesis using 1 2 3 4 by (cases "files s inp") blast+
qed

theorem validation_precedes_decode_witness:
  "files sample_state ''field/missing.jpg'' = None
   \<and> error (fst (process_image sample_env sample_config ''field/missing.jpg'' ''out/a.jpg'' sample_state))
       = Some ''Input image not found: field/missing.jpg''
   \<and> lower (path_suffix ''field/scan.gif'') = ''.gif''
   \<and> error (fst (process_image sample_env sample_config ''field/scan.gif'' ''out/a.jpg'' sample_state))
       = Some ''Unsupported image format: .gif''
   \<and> files sample_state ''field/huge.png'' = Some 30000000
   \<and> error (fst (process_image sample_env sample_config ''field/huge.png'' ''out/a.jpg'' sample_state))
       = Some ''Image file too large (max 20MB)''
   \<and> opened (snd (process_image sample_env sample_config ''field/huge.png'' ''out/a.jpg'' sample_state)) = []"
proof -
  have a: "files sample_state ''field/missing.jpg'' = None"
    by (simp add: sample_state_def)
  have b: "lower (path_suffix ''field/scan.gif'') = ''.gif''"
       "files sample_state ''field/scan.gif'' = Some 512"
    by (simp_all add: sample_state_def lower_def path_suffix_def path_name_def rfind_def lower_char_def)
  have c: "files sample_state ''field/huge.png'' = Some 30000000"
     "lower (path_suffix ''field/huge.png'') = ''.png''"
    by (simp_all add: sample_state_def lower_def path_suffix_def path_name_def rfind_def lower_char_def)
  have d: "opened sample_state = []" by (simp add: sample_state_def)
  show ?thesis
    using validation_precedes_decode[of sample_state "''field/missing.jpg''" sample_env sample_config "''out/a.jpg''"]
      validation_precedes_decode[of sample_state "''field/scan.gif''" sample_env sample_config "''out/a.jpg''"]
      validation_precedes_decode[of sample_state "''field/huge.png''" sample_env sample_config "''out/a.jpg''"]
      a b c d
    by (simp add: supported_formats_def path_suffix_def path_name_def rfind_def)
qed
subsection \<open>The running statistics\<close>

lemma scorer_fails_after_the_update:
  "try_block scorer_fails_env sample_config ''field/leaf.JPG'' ''out/leaf.jpg'' sample_state
   = (Inl (Exn MemoryError ''Unable to allocate array''),
      sample_state\<lparr>opened := [''field/leaf.JPG''],
         files := (files sample_state)(''out/leaf.jpg'' \<mapsto> 7), ticks := 2,
         statistics := \<lparr>processed_count = 1, error_count = 0, avg_processing_time = 1\<rparr>\<rparr>)"
  by (simp add: try_block_def scorer_fails_env_def sample_defs)

text \<open>
  Claim C9 does not hold of the code. The statistics are updated inside the \<^verbatim>\<open>try\<close>
  block, before the result dictionary is built; when building it raises (here the quality
  scorer), the handler counts an error as well. One failing invocation from the initial
  statistics leaves \<open>processed_count = 1\<close>, \<open>error_count = 1\<close> and a changed average.
\<close>

theorem failure_after_update_counts_twice:
  "\<not> success (fst (process_image scorer_fails_env sample_config ''field/leaf.JPG''
        ''out/leaf.jpg'' sample_state))
   \<and> statistics sample_state
       = \<lparr>processed_count = 0, error_count = 0, avg_processing_time = 0\<rparr>
   \<and> statistics (snd (process_image scorer_fails_env sample_config ''field/leaf.JPG''
        ''out/leaf.jpg'' sample_state))
       = \<lparr>processed_count = 1, error_count = 1, avg_processing_time = 1\<rparr>"
  by (simp add: process_image_try_block scorer_fails_after_the_update on_exception_eq)
     (simp add: sample_state_def initial_stats_def)

subsection \<open>The reported steps\<close>

lemma pipeline_runs_its_stages:
  "preprocess_pipeline env cfg img = run_stages env cfg (pipeline_stages cfg) img"
  by (simp add: preprocess_pipeline_def pipeline_stages_def enhance_quality_def Let_def
      split: sum.splits)

lemma applied_names_are_stage_names:
  "set (get_applied_preprocessing cfg) = stage_name ` set (pipeline_stages cfg)"
  by (cases "auto_crop cfg"; cases "color_correction cfg"; cases "noise_reduction cfg")
     (simp_all add: get_applied_preprocessing_def pipeline_stages_def insert_commute)

text \<open>
  Claim C10. The list of applied steps contains the literal name
  \<^verbatim>\<open>resize_to_512x512\<close> whatever the configuration is; changing the configured target size
  does not change the list; and every successful invocation reports that list, so its
  \<^verbatim>\<open>preprocessing_applied\<close> contains the name.
\<close>

theorem resize_step_name_is_constant:
  "''resize_to_512x512'' \<in> set (get_applied_preprocessing cfg)
   \<and> get_applied_preprocessing (cfg\<lparr>target_size := sz\<rparr>) = get_applied_preprocessing cfg
   \<and> (success (fst (process_image env cfg inp outp s)) \<longrightarrow>
        (\<exists>steps. preprocessing_applied (fst (process_image env cfg inp outp s)) = Some steps
                 \<and> ''resize_to_512x512'' \<in> set steps))"
proof -
  have 1: "''resize_to_512x512'' \<in> set (get_applied_preprocessing c)" for c
    by (simp add: get_applied_preprocessing_def Let_def)
  have 2: "get_applied_preprocessing (cfg\<lparr>target_size := sz\<rparr>) = get_applied_preprocessing cfg"
    by (simp add: get_applied_preprocessing_def)
  show ?thesis using 1 2 process_image_success[of env cfg inp outp s] by simp
qed

theorem resize_step_name_is_constant_witness:
  "target_size sample_config = (1, 1)
   \<and> success (fst (process_image sample_env sample_config ''field/leaf.JPG'' ''out/leaf.jpg''
        sample_state))
   \<and> (\<exists>steps. preprocessing_applied (fst (process_image sample_env sample_config
          ''field/leaf.JPG'' ''out/leaf.jpg'' sample_state)) = Some steps
        \<and> ''resize_to_512x512'' \<in> set steps)"
  using resize_step_name_is_constant[of sample_config "(1, 1)" sample_env
      "''field/leaf.JPG''" "''out/leaf.jpg''" sample_state] sample_run_succeeds
  by (simp add: sample_config_def)

text \<open>
  Claim C2, as amended. The pipeline runs the stages of \<open>pipeline_stages\<close> in that order;
  the list of applied steps names exactly these stages, each once, and every successful
  invocation reports it. The list is always in the fixed order auto crop, resize,
  lighting, contrast, sharpness, color correction, noise reduction (with the disabled
  stages left out), so under the default configuration it contains the six names of the
  claim in the claimed relative order. That order is the order of the report, not the
  order of the run.
\<close>

theorem applied_preprocessing_names_the_stages:
  "preprocess_pipeline env cfg img = run_stages env cfg (pipeline_stages cfg) img
   \<and> set (get_applied_preprocessing cfg) = stage_name ` set (pipeline_stages cfg)
   \<and> distinct (get_applied_preprocessing cfg)
   \<and> subseq (get_applied_preprocessing cfg)
        [''auto_crop_plant_focus'', ''resize_to_512x512'', ''lighting_normalization'',
         ''contrast_enhancement'', ''sharpness_enhancement'', ''color_correction'',
         ''noise_reduction'']
   \<and> subseq [''auto_crop_plant_focus'', ''lighting_normalization'', ''contrast_enhancement'',
              ''sharpness_enhancement'', ''color_correction'', ''noise_reduction'']
        (get_applied_preprocessing default_config)
   \<and> (success (fst (process_image env cfg inp outp s)) \<longrightarrow>
        preprocessing_applied (fst (process_image env cfg inp outp s))
          = Some (get_applied_preprocessing cfg))"
proof -
  have "distinct (get_applied_preprocessing cfg)"
    by (simp add: get_applied_preprocessing_def Let_def)
  moreover have "subseq (get_applied_preprocessing cfg)
        [''auto_crop_plant_focus'', ''resize_to_512x512'', ''lighting_normalization'',
         ''contrast_enhancement'', ''sharpness_enhancement'', ''color_correction'',
         ''noise_reduction'']"
    by (simp add: get_applied_preprocessing_def Let_def)
  moreover have "subseq [''auto_crop_plant_focus'', ''lighting_normalization'',
         ''contrast_enhancement'', ''sharpness_enhancement'', ''color_correction'',
         ''noise_reduction''] (get_applied_preprocessing default_config)"
    by (simp add: get_applied_preprocessing_def default_config_def)
  ultimately show ?thesis
    using pipeline_runs_its_stages applied_names_are_stage_names
      process_image_success[of env cfg inp outp s]
    by simp
qed

theorem applied_preprocessing_names_the_stages_witness:
  "success (fst (process_image sample_env sample_config ''field/leaf.JPG'' ''out/leaf.jpg''
        sample_state))
   \<and> preprocessing_applied (fst (process_image sample_env sample_config ''field/leaf.JPG''
        ''out/leaf.jpg'' sample_state))
     = Some [''auto_crop_plant_focus'', ''resize_to_512x512'', ''lighting_normalization'',
             ''contrast_enhancement'', ''sharpness_enhancement'', ''color_correction'',
             ''noise_reduction'']"
  using applied_preprocessing_names_the_stages[of sample_env sample_config sample_image
      "''field/leaf.JPG''" "''out/leaf.jpg''" sample_state] sample_run_succeeds
  by (simp add: get_applied_preprocessing_def sample_config_def default_config_def)

text \<open>
  The claim as stated fails under the default configuration: the pipeline runs color
  correction before the contrast and sharpness enhancement, and the report lists it after
  them.
\<close>

theorem applied_preprocessing_order_counterexample:
  "map stage_name (pipeline_stages default_config)
     = [''auto_crop_plant_focus'', ''resize_to_512x512'', ''lighting_normalization'',
        ''color_correction'', ''contrast_enhancement'', ''sharpness_enhancement'',
        ''noise_reduction'']
   \<and> get_applied_preprocessing default_config
     = [''auto_crop_plant_focus'', ''resize_to_512x512'', ''lighting_normalization'',
        ''contrast_enhancement'', ''sharpness_enhancement'', ''color_correction'',
        ''noise_reduction'']
   \<and> get_applied_preprocessing default_config
     \<noteq> map stage_name (pipeline_stages default_config)"
  by (simp add: get_applied_preprocessing_def pipeline_stages_def default_config_def)

end
